(* ===== verification/Les_Prelude.thy ===== *)
theory Les_Prelude
  imports Main "HOL-Library.Word" "HOL-Library.Char_ord" "HOL-Library.List_Lexorder"
    "HOL-Library.Multiset"
begin

text \<open>
  Shared vocabulary of the development.  C++ strings are byte strings (\<^typ>\<open>string\<close>, a
  list of 8-bit characters); a \<open>const char*\<close> made from a \<open>std::string\<close> stops at the first
  zero byte (\<open>c_str\<close>); exceptions are values of \<open>exn\<close>; a member function that may throw
  after having changed its object is a function \<open>'s \<Rightarrow> (exn + 'a) \<times> 's\<close>, so that the
  state the exception leaves behind is visible.  The theory also holds the facts on decimal
  printing, association lists and sorting that several components share.
\<close>

named_theorems keeps_rules \<open>introduction rules for actions that keep a property of the state\<close>

section \<open>Byte strings and C strings\<close>

type_synonym bytes = string

definition c_str :: "bytes \<Rightarrow> bytes" where
  "c_str s = takeWhile (\<lambda>c. c \<noteq> CHR 0x00) s"

definition no_nul :: "bytes \<Rightarrow> bool" where
  "no_nul s \<longleftrightarrow> CHR 0x00 \<notin> set s"

definition digit :: "nat \<Rightarrow> char" where
  "digit n = char_of (48 + n)"

fun to_string :: "nat \<Rightarrow> bytes" where
  "to_string n = (if n < 10 then [digit n] else to_string (n div 10) @ [digit (n mod 10)])"

declare to_string.simps [simp del]

definition dec_value :: "bytes \<Rightarrow> nat" where
  "dec_value s = foldl (\<lambda>a c. 10 * a + (of_char c - 48)) 0 s"

section \<open>Machine integers\<close>

text \<open>
  \<open>std::uint64_t\<close> is \<open>64 word\<close> and \<open>std::uint16_t\<close> is \<open>16 word\<close>.  \<open>std::int64_t\<close> is
  \<^typ>\<open>int\<close>: signed overflow is undefined behaviour in C++, so the model keeps the
  mathematical value and \<open>is_int64\<close> says where the program's value is defined.
\<close>

type_synonym u64 = "64 word"
type_synonym u16 = "16 word"

definition int64_max :: int where "int64_max = 9223372036854775807"
definition int64_min :: int where "int64_min = - 9223372036854775808"

definition is_int64 :: "int \<Rightarrow> bool" where
  "is_int64 n \<longleftrightarrow> int64_min \<le> n \<and> n \<le> int64_max"

section \<open>Exceptions\<close>

datatype exn =
    RuntimeError bytes
  | LengthError bytes
  | InvalidArgument bytes
  | OutOfRange bytes
  | DatabaseFull

type_synonym 'a result = "exn + 'a"
type_synonym ('s, 'a) action = "'s \<Rightarrow> (exn + 'a) \<times> 's"

definition ret :: "'a \<Rightarrow> ('s, 'a) action" where
  "ret x = (\<lambda>s. (Inr x, s))"

definition throw :: "exn \<Rightarrow> ('s, 'a) action" where
  "throw e = (\<lambda>s. (Inl e, s))"

definition andthen :: "('s, 'a) action \<Rightarrow> ('a \<Rightarrow> ('s, 'b) action) \<Rightarrow> ('s, 'b) action" where
  "andthen m f = (\<lambda>s. case m s of (Inl e, s') \<Rightarrow> (Inl e, s') | (Inr x, s') \<Rightarrow> f x s')"

definition result_bind :: "'a result \<Rightarrow> ('a \<Rightarrow> 'b result) \<Rightarrow> 'b result" where
  "result_bind r f = (case r of Inl e \<Rightarrow> Inl e | Inr x \<Rightarrow> f x)"

text \<open>An action that leaves a property of the state in place, whether it returns or throws.\<close>

definition keeps :: "('s \<Rightarrow> bool) \<Rightarrow> ('s, 'a) action \<Rightarrow> bool" where
  "keeps P m \<longleftrightarrow> (\<forall>s r s'. m s = (r, s') \<longrightarrow> P s \<longrightarrow> P s')"

section \<open>Associative containers\<close>

text \<open>
  A \<open>std::unordered_map\<close> is an association list with distinct keys; \<open>insert_or_assign\<close>
  replaces in place or appends, \<open>emplace\<close> keeps an entry that is already there.
\<close>

fun insert_or_assign :: "'k \<Rightarrow> 'v \<Rightarrow> ('k \<times> 'v) list \<Rightarrow> ('k \<times> 'v) list" where
  "insert_or_assign k v [] = [(k, v)]"
| "insert_or_assign k v ((k', v') # m) =
     (if k' = k then (k, v) # m else (k', v') # insert_or_assign k v m)"

definition emplace :: "'k \<Rightarrow> 'v \<Rightarrow> ('k \<times> 'v) list \<Rightarrow> ('k \<times> 'v) list" where
  "emplace k v m = (if k \<in> fst ` set m then m else m @ [(k, v)])"

section \<open>Lemmas on strings\<close>

lemma c_str_id [simp]: "no_nul s \<Longrightarrow> c_str s = s"
  by (auto simp: c_str_def no_nul_def takeWhile_eq_all_conv)

lemma no_nul_c_str [simp]: "no_nul (c_str s)"
  by (auto simp: c_str_def no_nul_def dest: set_takeWhileD)

lemma c_str_idem [simp]: "c_str (c_str s) = c_str s"
  by simp

lemma no_nul_Nil [simp]: "no_nul []"
  by (simp add: no_nul_def)

lemma no_nul_append [simp]: "no_nul (s @ t) \<longleftrightarrow> no_nul s \<and> no_nul t"
  by (auto simp: no_nul_def)

lemma no_nul_Cons [simp]: "no_nul (c # s) \<longleftrightarrow> c \<noteq> CHR 0x00 \<and> no_nul s"
  by (auto simp: no_nul_def)

lemma length_c_str: "length (c_str s) \<le> length s"
  by (simp add: c_str_def length_takeWhile_le)

lemma of_char_digit: "n < 10 \<Longrightarrow> of_char (digit n) = 48 + n"
  by (simp add: digit_def)

lemma dec_value_snoc: "dec_value (s @ [c]) = 10 * dec_value s + (of_char c - 48)"
  by (simp add: dec_value_def)

lemma dec_value_to_string [simp]: "dec_value (to_string n) = n"
proof (induction n rule: to_string.induct)
  case (1 n)
  show ?case
  proof (cases "n < 10")
    case True
    then show ?thesis
      by (subst to_string.simps) (simp add: dec_value_def of_char_digit)
  next
    case False
    with "1.IH" show ?thesis
      by (subst to_string.simps) (simp add: dec_value_snoc of_char_digit)
  qed
qed

lemma to_string_inject [simp]: "to_string m = to_string n \<longleftrightarrow> m = n"
  by (metis dec_value_to_string)

lemma to_string_chars: "c \<in> set (to_string n) \<Longrightarrow> 48 \<le> (of_char c :: nat) \<and> (of_char c :: nat) < 58"
proof (induction n rule: to_string.induct)
  case (1 n)
  then show ?case
    by (subst (asm) (2) to_string.simps) (auto simp: of_char_digit split: if_splits)
qed

lemma to_string_nonempty [simp]: "to_string n \<noteq> []"
  by (subst to_string.simps) simp

lemma no_nul_to_string [simp]: "no_nul (to_string n)"
  using to_string_chars [of "CHR 0x00" n] by (auto simp: no_nul_def)

lemma to_string_0: "to_string 0 = ''0''"
  using char_of_char [of "CHR ''0''"] by (subst to_string.simps) (simp add: digit_def)

lemma to_string_1: "to_string (Suc 0) = ''1''"
  using char_of_char [of "CHR ''1''"] by (subst to_string.simps) (simp add: digit_def)

lemma length_to_string_small: "n < 10 \<Longrightarrow> length (to_string n) = 1"
  by (subst to_string.simps) simp

lemma length_to_string: "n < 10 ^ k \<Longrightarrow> 1 \<le> k \<Longrightarrow> length (to_string n) \<le> k"
proof (induction n arbitrary: k rule: to_string.induct)
  case (1 n)
  show ?case
  proof (cases "n < 10")
    case True
    then show ?thesis using "1.prems" by (simp add: length_to_string_small)
  next
    case False
    then obtain j where j: "k = Suc j" "1 \<le> j"
      using "1.prems" by (cases k; cases "k = 1") auto
    have "n div 10 < 10 ^ j" using "1.prems"(1) j(1) by (simp add: less_mult_imp_div_less mult.commute)
    from "1.IH" [OF False this j(2)] show ?thesis
      using j(1) False by (subst to_string.simps) simp
  qed
qed

section \<open>Lemmas on 64-bit integers\<close>

lemma u64_of_int64:
  assumes "1 \<le> n" and "is_int64 n"
  shows "unat (word_of_int n :: u64) = nat n" and "nat n < 2 ^ 63"
proof -
  show "nat n < 2 ^ 63"
    using assms by (simp add: is_int64_def int64_max_def nat_less_iff)
  have "uint (word_of_int n :: u64) = n"
    using assms by (simp add: is_int64_def int64_max_def uint_word_of_int_eq take_bit_int_eq_self)
  then show "unat (word_of_int n :: u64) = nat n"
    by (simp flip: nat_uint_eq)
qed

lemma sint_of_small:
  assumes "unat (w :: u64) < 2 ^ 63"
  shows "sint w = int (unat w)" and "word_of_int (sint w) = w"
proof -
  show "word_of_int (sint w) = w" by simp
  have "uint w < 2 ^ 63"
    using assms by (metis uint_nat of_nat_less_iff of_nat_numeral of_nat_power)
  then have "signed_take_bit 63 (uint w) = uint w"
    using uint_ge_0 [of w] by (intro signed_take_bit_int_eq_self) linarith+
  then have "sint w = uint w"
    unfolding sint_uint by simp
  then show "sint w = int (unat w)"
    by (simp only: uint_nat)
qed

lemma sint_positive:
  assumes "1 \<le> unat (w :: u64)" and "unat w < 2 ^ 63"
  shows "1 \<le> sint w \<and> sint w \<le> int64_max"
proof -
  have "sint w = int (unat w)" using assms(2) by (rule sint_of_small(1))
  moreover have "int (unat w) < int (2 ^ 63)" using assms(2) by (simp only: of_nat_less_iff)
  moreover have "int 1 \<le> int (unat w)" using assms(1) by (simp only: of_nat_le_iff)
  ultimately show ?thesis by (simp add: int64_max_def)
qed

lemma uint_of_positive_sint:
  assumes "1 \<le> sint (w :: u64)"
  shows "int (unat w) = sint w"
proof -
  have "sint w < 2 ^ 63"
    using sint_lt [of w] by simp
  then have "is_int64 (sint w)"
    using assms by (simp add: is_int64_def int64_min_def int64_max_def)
  from u64_of_int64(1) [OF assms this] assms show ?thesis by simp
qed

lemma word_le_of_sint:
  assumes "1 \<le> sint (w :: u64)" and "sint w \<le> n" and "n \<le> int64_max"
  shows "w \<le> word_of_int n"
proof -
  have "is_int64 n" using assms by (simp add: is_int64_def int64_min_def)
  then have "int (unat (word_of_int n :: u64)) = n"
    using u64_of_int64(1) [of n] assms by simp
  then have "int (unat w) \<le> int (unat (word_of_int n :: u64))"
    using uint_of_positive_sint [OF assms(1)] assms(2) by linarith
  then show ?thesis by (simp only: of_nat_le_iff word_le_nat_alt)
qed

lemma div_bounds:
  assumes "0 < (p :: int)"
  shows "x div p * p \<le> x \<and> x < (x div p + 1) * p"
proof -
  have "(x div p + 1) * p = x div p * p + p" by (simp add: distrib_right)
  moreover have "x div p * p + x mod p = x" by (rule div_mult_mod_eq)
  moreover have "0 \<le> x mod p" "x mod p < p" using assms by simp_all
  ultimately show ?thesis by linarith
qed

section \<open>Lemmas on exceptions and state\<close>

lemma andthen_Inr:
  "andthen m f s = (Inr y, s'') \<longleftrightarrow> (\<exists>x s'. m s = (Inr x, s') \<and> f x s' = (Inr y, s''))"
  by (auto simp: andthen_def split: prod.splits sum.splits)

lemma andthen_Inl:
  "andthen m f s = (Inl e, s'') \<longleftrightarrow>
    m s = (Inl e, s'') \<or> (\<exists>x s'. m s = (Inr x, s') \<and> f x s' = (Inl e, s''))"
  by (auto simp: andthen_def split: prod.splits sum.splits)

lemma keepsI: "(\<And>s r s'. m s = (r, s') \<Longrightarrow> P s \<Longrightarrow> P s') \<Longrightarrow> keeps P m"
  by (auto simp: keeps_def)

lemma keepsD: "keeps P m \<Longrightarrow> m s = (r, s') \<Longrightarrow> P s \<Longrightarrow> P s'"
  by (auto simp: keeps_def)

lemma keeps_andthen [keeps_rules]: "keeps P m \<Longrightarrow> (\<And>x. keeps P (f x)) \<Longrightarrow> keeps P (andthen m f)"
  by (fastforce simp: keeps_def andthen_def split: prod.splits sum.splits)

lemma keeps_ret [keeps_rules]: "keeps P (ret x)"
  by (simp add: keeps_def ret_def)

lemma keeps_throw [keeps_rules]: "keeps P (throw e)"
  by (simp add: keeps_def throw_def)



lemma ret_simp [simp]: "ret x s = (Inr x, s)"
  by (simp add: ret_def)

lemma throw_simp [simp]: "throw e s = (Inl e, s)"
  by (simp add: throw_def)

lemma result_bind_Inr [simp]: "result_bind (Inr x) f = f x"
  by (simp add: result_bind_def)

lemma result_bind_Inl [simp]: "result_bind (Inl e) f = Inl e"
  by (simp add: result_bind_def)

section \<open>Lemmas on associative containers\<close>

lemma map_of_insert_or_assign: "map_of (insert_or_assign k v m) = (map_of m)(k \<mapsto> v)"
  by (induction k v m rule: insert_or_assign.induct) (auto simp: fun_eq_iff)

lemma fst_insert_or_assign:
  "map fst (insert_or_assign k v m) = (if k \<in> fst ` set m then map fst m else map fst m @ [k])"
  by (induction k v m rule: insert_or_assign.induct) auto

lemma set_insert_or_assign:
  "distinct (map fst m) \<Longrightarrow> set (insert_or_assign k v m) = insert (k, v) {e \<in> set m. fst e \<noteq> k}"
  by (induction k v m rule: insert_or_assign.induct) (auto simp: image_iff)

lemma map_of_emplace:
  "map_of (emplace k v m) = (if k \<in> dom (map_of m) then map_of m else (map_of m)(k \<mapsto> v))"
  using map_of_eq_None_iff [of m k]
  by (auto simp: emplace_def dom_map_of_conv_image_fst map_add_def fun_eq_iff split: option.splits)

lemma fst_emplace: "map fst (emplace k v m) = (if k \<in> fst ` set m then map fst m else map fst m @ [k])"
  by (simp add: emplace_def)

lemma distinct_keys_mset: "mset xs = mset ys \<Longrightarrow> distinct (map fst xs) \<longleftrightarrow> distinct (map fst ys)"
  by (rule mset_eq_imp_distinct_iff) (simp add: mset_map)

section \<open>Lemmas on sorting\<close>

lemma sort_key_unique:
  assumes "mset xs = mset ys" and "distinct (map f xs)"
  shows "sort_key f xs = sort_key f ys"
proof (rule properties_for_sort_key)
  show "mset (sort_key f ys) = mset xs" using assms(1) by simp
  show "sorted (map f (sort_key f ys))" by simp
next
  fix k
  assume "k \<in> set (sort_key f ys)"
  then have k: "k \<in> set xs" using mset_eq_setD [OF assms(1)] by simp
  have inj: "inj_on f (set xs)"
    using assms(2) by (simp add: distinct_map)
  have d: "distinct xs" "distinct ys"
    using assms by (auto simp: distinct_map dest: mset_eq_imp_distinct_iff)
  have single: "filter (\<lambda>x. f k = f x) zs = [k]" if "mset zs = mset xs" for zs
  proof -
    have "mset (filter (\<lambda>x. f k = f x) zs) = filter_mset (\<lambda>x. x = k) (mset xs)"
      using that inj k by (auto simp: inj_on_def intro!: filter_mset_cong)
    also have "\<dots> = {#k#}"
      using d(1) k by (simp add: filter_eq_replicate_mset distinct_count_atmost_1)
    finally show ?thesis by (simp del: mset_filter)
  qed
  show "filter (\<lambda>x. f k = f x) (sort_key f ys) = filter (\<lambda>x. f k = f x) xs"
    using assms(1) by (simp add: single)
qed

text \<open>What is appended to the rest of a list is appended to the list, if no more is dropped than it has.\<close>

lemma drop_then_append: "drop j xs @ ys = drop (min j (length xs)) (xs @ ys)"
  by (cases "j \<le> length xs") simp_all

end
