(* ===== verification/Les_Types.thy ===== *)
theory Les_Types
  imports Les_Prelude
begin

text \<open>
  The constants of \<open>protocol.hpp\<close> and the plain structs that travel between the components:
  \<open>ChatMessage\<close> (\<open>message.hpp\<close>), \<open>Peer\<close> (\<open>peer.hpp\<close>), \<open>NodeIdentity\<close>
  (\<open>node_identity.hpp\<close>) and the enumeration \<open>TimeSyncMode\<close>
  (\<open>discovery_service.hpp\<close>).  Fields whose name occurs in two structs carry the struct as a
  prefix.
\<close>

section \<open>Protocol constants\<close>

definition protocol_version :: int where "protocol_version = 1"
definition app_version :: bytes where "app_version = ''0.1.18''"
definition service_name :: bytes where "service_name = ''les-chatd''"
definition default_channel :: bytes where "default_channel = ''les-manet''"

definition max_message_bytes :: nat where "max_message_bytes = 2048"
definition max_request_bytes :: nat where "max_request_bytes = 4096"
definition max_sync_request_bytes :: nat where "max_sync_request_bytes = 128 * 1024"
definition max_datagram_bytes :: nat where "max_datagram_bytes = 4096"
definition max_sync_batch_messages :: nat where "max_sync_batch_messages = 50"
definition max_database_bytes :: u64 where "max_database_bytes = 10 * 1024 * 1024"

section \<open>Structs\<close>

record ChatMessage =
  sequence :: u64
  message_id :: bytes
  origin :: bytes
  callsign :: bytes
  channel :: bytes
  created_at_ms :: int
  body :: bytes

record Peer =
  peer_node_id :: bytes
  peer_callsign :: bytes
  address :: bytes
  http_port :: u16
  peer_app_version :: bytes
  last_seen_ms :: int

record NodeIdentity =
  node_id :: bytes
  node_callsign :: bytes

datatype TimeSyncMode = Off | Authority | Client

text \<open>A message for the examples.\<close>

definition sample_message :: "nat \<Rightarrow> ChatMessage" where
  "sample_message n = \<lparr>sequence = word_of_nat n, message_id = ''node-a:'' @ to_string n, origin = ''node-a'',
     callsign = ''Bolt'', channel = ''les-manet'', created_at_ms = int n, body = ''hello''\<rparr>"

end
