(* ===== verification/Les_Sqlite.thy ===== *)
theory Les_Sqlite
  imports Les_Types "HOL-Library.Sublist"
begin

text \<open>
  SQLite as \<open>message_store.cpp\<close> uses it.  The library is a parameter: a record of the calls the
  source makes on a connection of type \<open>'db\<close>.  \<open>run\<close> is stepping a prepared statement with its
  bound values until it no longer returns \<open>SQLITE_ROW\<close>: the rows, the final code, the
  connection afterwards.  The SQL texts are those of the source.  The locale
  \<open>sqlite_engine\<close> states the documented effect of these texts through a view of the
  connection: the two tables as the connection sees them, and the tables to which a rollback
  would return while a transaction is open.  Any statement may fail at any time; a failed
  statement has no effect of its own, and SQLite may have rolled the transaction back.
\<close>

datatype sqlite_rc =
    SQLITE_OK | SQLITE_ROW | SQLITE_DONE | SQLITE_FULL | SQLITE_BUSY | SQLITE_ERROR nat

datatype sqlval = SInt int | SText bytes | SNull

type_synonym sqlrow = "sqlval list"

record 'db sqlite =
  open_v2 :: "bytes \<Rightarrow> sqlite_rc \<times> 'db option"
  exec :: "bytes \<Rightarrow> 'db \<Rightarrow> sqlite_rc \<times> 'db"
  prepare_v2 :: "bytes \<Rightarrow> 'db \<Rightarrow> bool"
  bind_text_ok :: "bytes \<Rightarrow> bool"
  run :: "bytes \<Rightarrow> sqlval list \<Rightarrow> 'db \<Rightarrow> sqlrow list \<times> sqlite_rc \<times> 'db"
  changes :: "'db \<Rightarrow> int"
  errmsg :: "'db \<Rightarrow> bytes"
  exec_error :: "'db \<Rightarrow> bytes option"
  value_text :: "sqlval \<Rightarrow> bytes option"
  value_bytes :: "sqlval \<Rightarrow> int"
  value_int64 :: "sqlval \<Rightarrow> int"

section \<open>The SQL texts of the source\<close>

definition sql_journal_mode :: bytes where "sql_journal_mode = ''PRAGMA journal_mode=DELETE''"
definition sql_synchronous :: bytes where "sql_synchronous = ''PRAGMA synchronous=NORMAL''"
definition sql_foreign_keys :: bytes where "sql_foreign_keys = ''PRAGMA foreign_keys=ON''"
definition sql_page_size :: bytes where "sql_page_size = ''PRAGMA page_size''"
definition sql_max_page_count :: "nat \<Rightarrow> bytes" where
  "sql_max_page_count n = ''PRAGMA max_page_count='' @ to_string n"
definition sql_create_messages :: bytes where
  "sql_create_messages =
    ''CREATE TABLE IF NOT EXISTS messages ('' @
    ''storage_id INTEGER PRIMARY KEY AUTOINCREMENT,'' @
    ''origin TEXT NOT NULL, sequence INTEGER NOT NULL,'' @
    ''message_id TEXT NOT NULL UNIQUE, callsign TEXT NOT NULL,'' @
    ''channel TEXT NOT NULL, created_at_ms INTEGER NOT NULL,'' @
    ''body TEXT NOT NULL, UNIQUE(origin, sequence))''"
definition sql_create_sequences :: bytes where
  "sql_create_sequences =
    ''CREATE TABLE IF NOT EXISTS sequences ('' @
    ''origin TEXT PRIMARY KEY, last_sequence INTEGER NOT NULL)''"
definition sql_select_messages :: bytes where
  "sql_select_messages =
    ''SELECT sequence, message_id, origin, callsign, channel, '' @
    ''created_at_ms, body FROM messages ORDER BY storage_id''"
definition sql_contains :: bytes where
  "sql_contains = ''SELECT 1 FROM messages WHERE message_id=?1 LIMIT 1''"
definition sql_begin :: bytes where "sql_begin = ''BEGIN IMMEDIATE''"
definition sql_commit :: bytes where "sql_commit = ''COMMIT''"
definition sql_rollback :: bytes where "sql_rollback = ''ROLLBACK''"
definition sql_insert :: bytes where
  "sql_insert =
    ''INSERT OR IGNORE INTO messages '' @
    ''(origin, sequence, message_id, callsign, channel, '' @
    ''created_at_ms, body) VALUES (?1, ?2, ?3, ?4, ?5, ?6, ?7)''"
definition sql_upsert :: bytes where
  "sql_upsert =
    ''INSERT INTO sequences(origin, last_sequence) VALUES(?1, ?2) '' @
    ''ON CONFLICT(origin) DO UPDATE SET last_sequence='' @
    ''MAX(last_sequence, excluded.last_sequence)''"
definition sql_prune :: bytes where
  "sql_prune =
    ''DELETE FROM messages WHERE storage_id IN ('' @
    ''SELECT storage_id FROM messages ORDER BY storage_id LIMIT 100)''"
definition sql_last_sequence :: bytes where
  "sql_last_sequence = ''SELECT last_sequence FROM sequences WHERE origin=?1''"
definition sql_summary :: bytes where
  "sql_summary = ''SELECT origin, last_sequence FROM sequences''"

lemmas sql_texts =
  sql_journal_mode_def sql_synchronous_def sql_foreign_keys_def sql_page_size_def
  sql_create_messages_def sql_create_sequences_def sql_select_messages_def sql_contains_def
  sql_begin_def sql_commit_def sql_rollback_def sql_insert_def sql_upsert_def sql_prune_def
  sql_last_sequence_def sql_summary_def

section \<open>The tables and the meaning of the statements\<close>

text \<open>
  Rows of \<open>messages\<close> are listed in the order of \<open>storage_id\<close>; as the column is
  \<open>AUTOINCREMENT\<close>, an inserted row comes last.
\<close>

record tables =
  t_messages :: "ChatMessage list"
  t_sequences :: "(bytes \<times> int) list"

definition empty_tables :: tables where
  "empty_tables = \<lparr>t_messages = [], t_sequences = []\<rparr>"

text \<open>The columns of \<open>sql_select_messages\<close>, and the values bound to \<open>sql_insert\<close>.\<close>

definition message_row :: "ChatMessage \<Rightarrow> sqlrow" where
  "message_row m =
     [SInt (sint (sequence m)), SText (message_id m), SText (origin m), SText (callsign m),
      SText (channel m), SInt (created_at_ms m), SText (body m)]"

definition insert_args :: "ChatMessage \<Rightarrow> sqlval list" where
  "insert_args m =
     [SText (origin m), SInt (sint (sequence m)), SText (message_id m), SText (callsign m),
      SText (channel m), SInt (created_at_ms m), SText (body m)]"

text \<open>No row violates \<open>UNIQUE(message_id)\<close> or \<open>UNIQUE(origin, sequence)\<close> with the new one.\<close>

definition fresh :: "ChatMessage \<Rightarrow> tables \<Rightarrow> bool" where
  "fresh m t \<longleftrightarrow>
     list_all (\<lambda>r. message_id r \<noteq> message_id m \<and> \<not> (origin r = origin m \<and> sequence r = sequence m))
       (t_messages t)"

definition insert_row :: "ChatMessage \<Rightarrow> tables \<Rightarrow> tables" where
  "insert_row m t = (if fresh m t then t\<lparr>t_messages := t_messages t @ [m]\<rparr> else t)"

definition upsert_row :: "bytes \<Rightarrow> int \<Rightarrow> tables \<Rightarrow> tables" where
  "upsert_row k n t =
     t\<lparr>t_sequences := insert_or_assign k
        (case map_of (t_sequences t) k of None \<Rightarrow> n | Some l \<Rightarrow> max l n) (t_sequences t)\<rparr>"

definition prune_rows :: "tables \<Rightarrow> tables" where
  "prune_rows t = t\<lparr>t_messages := drop 100 (t_messages t)\<rparr>"

type_synonym db_view = "tables \<times> tables option"

section \<open>What the source relies on of SQLite\<close>

text \<open>
  Of \<open>ROLLBACK\<close> it is assumed that the transaction is over afterwards, whatever code it returns: a
  \<open>ROLLBACK\<close> without an open transaction is an error and changes nothing, and since version 3.7.11
  pending statements no longer make it fail (the statements of \<open>insert_message\<close> are finalized before
  it anyway).  This leaves out that SQLite runs out of memory while it prepares the \<open>ROLLBACK\<close>, after
  which the source would go on with the transaction open.
\<close>

locale sqlite_engine =
  fixes E :: "'db sqlite" and view :: "'db \<Rightarrow> db_view"
  assumes text_value: "value_text E (SText txt) = Some txt" "value_bytes E (SText txt) = int (length txt)"
    and int_value: "value_int64 E (SInt n) = n"
    and run_final: "run E sql args db = (rows, rc, db') \<Longrightarrow> rc \<noteq> SQLITE_ROW"
    and pragma_view: "sql \<in> {sql_journal_mode, sql_synchronous, sql_foreign_keys, sql_max_page_count pages,
          sql_create_messages, sql_create_sequences} \<Longrightarrow>
          exec E sql db = (rc, db') \<Longrightarrow> view db' = view db"
    and page_size_view: "run E sql_page_size [] db = (rows, rc, db') \<Longrightarrow> view db' = view db"
    and begin_ok: "exec E sql_begin db = (SQLITE_OK, db') \<Longrightarrow> view db = (t, None) \<Longrightarrow> view db' = (t, Some t)"
    and begin_failed: "exec E sql_begin db = (rc, db') \<Longrightarrow> rc \<noteq> SQLITE_OK \<Longrightarrow> view db' = view db"
    and insert_no_rows: "run E sql_insert (insert_args m) db = (rows, rc, db') \<Longrightarrow> rows = []"
    and insert_done: "run E sql_insert (insert_args m) db = (rows, SQLITE_DONE, db') \<Longrightarrow>
          view db = (t, so) \<Longrightarrow> view db' = (insert_row m t, so) \<and> changes E db' = of_bool (fresh m t)"
    and insert_failed: "run E sql_insert (insert_args m) db = (rows, rc, db') \<Longrightarrow> rc \<noteq> SQLITE_DONE \<Longrightarrow>
          view db = (t, Some s) \<Longrightarrow> view db' = (t, Some s) \<or> view db' = (s, None)"
    and upsert_no_rows: "run E sql_upsert [SText k, SInt n] db = (rows, rc, db') \<Longrightarrow> rows = []"
    and upsert_done: "run E sql_upsert [SText k, SInt n] db = (rows, SQLITE_DONE, db') \<Longrightarrow>
          view db = (t, so) \<Longrightarrow> view db' = (upsert_row k n t, so)"
    and upsert_failed: "run E sql_upsert [SText k, SInt n] db = (rows, rc, db') \<Longrightarrow> rc \<noteq> SQLITE_DONE \<Longrightarrow>
          view db = (t, Some s) \<Longrightarrow> view db' = (t, Some s) \<or> view db' = (s, None)"
    and commit_ok: "exec E sql_commit db = (SQLITE_OK, db') \<Longrightarrow> view db = (t, Some s) \<Longrightarrow> view db' = (t, None)"
    and commit_failed: "exec E sql_commit db = (rc, db') \<Longrightarrow> rc \<noteq> SQLITE_OK \<Longrightarrow>
          view db = (t, Some s) \<Longrightarrow> view db' = (t, Some s) \<or> view db' = (s, None)"
    and rollback_open: "exec E sql_rollback db = (rc, db') \<Longrightarrow> view db = (t, Some s) \<Longrightarrow> view db' = (s, None)"
    and rollback_closed: "exec E sql_rollback db = (rc, db') \<Longrightarrow> view db = (t, None) \<Longrightarrow> view db' = (t, None)"
    and prune_ok: "exec E sql_prune db = (SQLITE_OK, db') \<Longrightarrow> view db = (t, None) \<Longrightarrow>
          view db' = (prune_rows t, None)"
    and prune_failed: "exec E sql_prune db = (rc, db') \<Longrightarrow> rc \<noteq> SQLITE_OK \<Longrightarrow>
          view db = (t, None) \<Longrightarrow> view db' = (t, None)"
    and select_view: "sql \<in> {sql_select_messages, sql_contains, sql_last_sequence, sql_summary} \<Longrightarrow>
          run E sql args db = (rows, rc, db') \<Longrightarrow> view db' = view db"
    and select_messages_rows: "run E sql_select_messages [] db = (rows, rc, db') \<Longrightarrow> view db = (t, so) \<Longrightarrow>
          (\<exists>k. rows = map message_row (take k (t_messages t))) \<and>
          (rc = SQLITE_DONE \<longrightarrow> rows = map message_row (t_messages t))"
    and contains_rows: "run E sql_contains [SText k] db = (rows, rc, db') \<Longrightarrow> view db = (t, so) \<Longrightarrow>
          (rows \<noteq> [] \<longrightarrow> k \<in> message_id ` set (t_messages t)) \<and>
          (rc = SQLITE_DONE \<longrightarrow> k \<in> message_id ` set (t_messages t) \<longrightarrow> rows \<noteq> [])"
    and last_sequence_rows: "run E sql_last_sequence [SText k] db = (rows, rc, db') \<Longrightarrow> view db = (t, so) \<Longrightarrow>
          (\<forall>r \<in> set rows. \<exists>n. map_of (t_sequences t) k = Some n \<and> r = [SInt n]) \<and>
          (rc = SQLITE_DONE \<longrightarrow> map_of (t_sequences t) k \<noteq> None \<longrightarrow> rows \<noteq> [])"
    and summary_rows: "run E sql_summary [] db = (rows, rc, db') \<Longrightarrow> view db = (t, so) \<Longrightarrow>
          rc = SQLITE_DONE \<Longrightarrow>
          \<exists>kvs. mset kvs = mset (t_sequences t) \<and> rows = map (\<lambda>(k, n). [SText k, SInt n]) kvs"
    and opened_view: "open_v2 E path = (SQLITE_OK, Some db) \<Longrightarrow> snd (view db) = None"

end
