(* ===== verification/Les_Sqlite_Ref.thy ===== *)
theory Les_Sqlite_Ref
  imports Les_Sqlite
begin

text \<open>
  An executable engine that meets the contract \<open>sqlite_engine\<close>: it interprets the SQL texts of
  the source on two in-memory tables with a bounded number of message rows, a transaction
  being the saved tables.  It shows that the contract is consistent, and the examples of the
  development run on it.
\<close>

record refdb =
  cur :: tables
  saved :: "tables option"
  last_changes :: int
  capacity :: nat

definition ref_exec :: "bytes \<Rightarrow> refdb \<Rightarrow> sqlite_rc \<times> refdb" where
  "ref_exec sql db =
     (if sql = sql_begin then
        (case saved db of None \<Rightarrow> (SQLITE_OK, db\<lparr>saved := Some (cur db)\<rparr>) | Some _ \<Rightarrow> (SQLITE_ERROR 1, db))
      else if sql = sql_commit then
        (case saved db of None \<Rightarrow> (SQLITE_ERROR 1, db) | Some _ \<Rightarrow> (SQLITE_OK, db\<lparr>saved := None\<rparr>))
      else if sql = sql_rollback then
        (case saved db of None \<Rightarrow> (SQLITE_ERROR 1, db)
         | Some t \<Rightarrow> (SQLITE_OK, db\<lparr>cur := t, saved := None\<rparr>))
      else if sql = sql_prune then (SQLITE_OK, db\<lparr>cur := prune_rows (cur db)\<rparr>)
      else (SQLITE_OK, db))"

fun args_message :: "sqlval list \<Rightarrow> ChatMessage option" where
  "args_message [SText o', SInt n, SText i, SText cs, SText ch, SInt c, SText b] =
     Some \<lparr>sequence = word_of_int n, message_id = i, origin = o', callsign = cs, channel = ch,
       created_at_ms = c, body = b\<rparr>"
| "args_message _ = None"

definition ref_insert :: "sqlval list \<Rightarrow> refdb \<Rightarrow> sqlrow list \<times> sqlite_rc \<times> refdb" where
  "ref_insert args db =
     (case args_message args of
        None \<Rightarrow> ([], SQLITE_ERROR 1, db)
      | Some m \<Rightarrow>
          if fresh m (cur db) \<and> capacity db \<le> length (t_messages (cur db)) then ([], SQLITE_FULL, db)
          else ([], SQLITE_DONE, db\<lparr>cur := insert_row m (cur db), last_changes := of_bool (fresh m (cur db))\<rparr>))"

fun ref_upsert :: "sqlval list \<Rightarrow> refdb \<Rightarrow> sqlrow list \<times> sqlite_rc \<times> refdb" where
  "ref_upsert [SText k, SInt n] db = ([], SQLITE_DONE, db\<lparr>cur := upsert_row k n (cur db), last_changes := 1\<rparr>)"
| "ref_upsert _ db = ([], SQLITE_ERROR 1, db)"

fun ref_contains :: "sqlval list \<Rightarrow> refdb \<Rightarrow> sqlrow list" where
  "ref_contains [SText k] db =
     (if list_ex (\<lambda>m. message_id m = k) (t_messages (cur db)) then [[SInt 1]] else [])"
| "ref_contains _ db = []"

fun ref_last :: "sqlval list \<Rightarrow> refdb \<Rightarrow> sqlrow list" where
  "ref_last [SText k] db = (case map_of (t_sequences (cur db)) k of None \<Rightarrow> [] | Some n \<Rightarrow> [[SInt n]])"
| "ref_last _ db = []"

definition ref_run :: "bytes \<Rightarrow> sqlval list \<Rightarrow> refdb \<Rightarrow> sqlrow list \<times> sqlite_rc \<times> refdb" where
  "ref_run sql args db =
     (if sql = sql_insert then ref_insert args db
      else if sql = sql_upsert then ref_upsert args db
      else if sql = sql_select_messages then (map message_row (t_messages (cur db)), SQLITE_DONE, db)
      else if sql = sql_contains then (ref_contains args db, SQLITE_DONE, db)
      else if sql = sql_last_sequence then (ref_last args db, SQLITE_DONE, db)
      else if sql = sql_summary then
        (map (\<lambda>(k, n). [SText k, SInt n]) (t_sequences (cur db)), SQLITE_DONE, db)
      else if sql = sql_page_size then ([[SInt 4096]], SQLITE_DONE, db)
      else ([], SQLITE_ERROR 1, db))"

fun ref_text :: "sqlval \<Rightarrow> bytes option" where
  "ref_text (SText s) = Some s"
| "ref_text (SInt n) = Some (to_string (nat n))"
| "ref_text SNull = None"

fun ref_int :: "sqlval \<Rightarrow> int" where
  "ref_int (SInt n) = n"
| "ref_int _ = 0"

definition ref_sqlite :: "refdb \<Rightarrow> refdb sqlite" where
  "ref_sqlite file = \<lparr>
     open_v2 = (\<lambda>path. (SQLITE_OK, Some (file\<lparr>saved := None\<rparr>))),
     exec = ref_exec,
     prepare_v2 = (\<lambda>sql db. True),
     bind_text_ok = (\<lambda>s. True),
     run = ref_run,
     changes = last_changes,
     errmsg = (\<lambda>db. ''error''), exec_error = (\<lambda>db. None),
     value_text = ref_text,
     value_bytes = (\<lambda>v. case ref_text v of None \<Rightarrow> 0 | Some s \<Rightarrow> int (length s)),
     value_int64 = ref_int\<rparr>"

definition ref_view :: "refdb \<Rightarrow> db_view" where
  "ref_view db = (cur db, saved db)"

definition empty_refdb :: "nat \<Rightarrow> refdb" where
  "empty_refdb n = \<lparr>cur = empty_tables, saved = None, last_changes = 0, capacity = n\<rparr>"

section \<open>The engine meets the contract\<close>

lemma args_message_insert: "args_message (insert_args m) = Some m"
  by (simp add: insert_args_def)

lemma ref_fields [simp]:
  "exec (ref_sqlite f) = ref_exec" "run (ref_sqlite f) = ref_run" "changes (ref_sqlite f) = last_changes"
  "prepare_v2 (ref_sqlite f) = (\<lambda>sql db. True)" "bind_text_ok (ref_sqlite f) = (\<lambda>s. True)"
  "value_text (ref_sqlite f) = ref_text" "value_int64 (ref_sqlite f) = ref_int"
  "value_bytes (ref_sqlite f) = (\<lambda>v. case ref_text v of None \<Rightarrow> 0 | Some s \<Rightarrow> int (length s))"
  "open_v2 (ref_sqlite f) = (\<lambda>path. (SQLITE_OK, Some (f\<lparr>saved := None\<rparr>)))"
  by (simp_all add: ref_sqlite_def)

lemma ref_exec_simps [simp]:
  "ref_exec sql_begin db = (case saved db of None \<Rightarrow> (SQLITE_OK, db\<lparr>saved := Some (cur db)\<rparr>)
     | Some _ \<Rightarrow> (SQLITE_ERROR 1, db))"
  "ref_exec sql_commit db = (case saved db of None \<Rightarrow> (SQLITE_ERROR 1, db)
     | Some _ \<Rightarrow> (SQLITE_OK, db\<lparr>saved := None\<rparr>))"
  "ref_exec sql_rollback db = (case saved db of None \<Rightarrow> (SQLITE_ERROR 1, db)
     | Some t \<Rightarrow> (SQLITE_OK, db\<lparr>cur := t, saved := None\<rparr>))"
  "ref_exec sql_prune db = (SQLITE_OK, db\<lparr>cur := prune_rows (cur db)\<rparr>)"
  "ref_exec sql_journal_mode db = (SQLITE_OK, db)" "ref_exec sql_synchronous db = (SQLITE_OK, db)"
  "ref_exec sql_foreign_keys db = (SQLITE_OK, db)" "ref_exec (sql_max_page_count n) db = (SQLITE_OK, db)"
  "ref_exec sql_create_messages db = (SQLITE_OK, db)" "ref_exec sql_create_sequences db = (SQLITE_OK, db)"
  by (simp_all add: ref_exec_def sql_texts sql_max_page_count_def)

lemma ref_run_simps [simp]:
  "ref_run sql_insert args db = ref_insert args db"
  "ref_run sql_upsert args db = ref_upsert args db"
  "ref_run sql_select_messages args db = (map message_row (t_messages (cur db)), SQLITE_DONE, db)"
  "ref_run sql_contains args db = (ref_contains args db, SQLITE_DONE, db)"
  "ref_run sql_last_sequence args db = (ref_last args db, SQLITE_DONE, db)"
  "ref_run sql_summary args db =
     (map (\<lambda>(k, n). [SText k, SInt n]) (t_sequences (cur db)), SQLITE_DONE, db)"
  "ref_run sql_page_size args db = ([[SInt 4096]], SQLITE_DONE, db)"
  by (simp_all add: ref_run_def sql_texts)

lemma ref_run_final: "ref_run sql args db = (rows, rc, db') \<Longrightarrow> rc \<noteq> SQLITE_ROW"
  by (auto simp: ref_run_def ref_insert_def split: if_splits option.splits elim: ref_upsert.elims)

lemma take_everything: "\<exists>k. map f xs = map f (take k xs)"
  by (rule exI [of _ "length xs"]) simp

interpretation refengine: sqlite_engine "ref_sqlite file" ref_view
  by unfold_locales
     (auto simp: ref_view_def ref_insert_def args_message_insert ref_run_final list_ex_iff
       take_everything split: option.splits if_splits)

end
