(* ===== verification/Les_Log.thy ===== *)
theory Les_Log
  imports Les_Sqlite
begin

text \<open>
  The contract of the message log, in terms of the two tables: their invariant, and what adding a
  message does to them (\<open>add_spec\<close>).  The locale \<open>message_log\<close> is the interface the services
  rely on; what follows from it for histories of additions is proved here once, and
  \<open>Les_Store\<close> shows that \<open>MessageStore\<close> provides it on every engine that meets the laws of SQLite.
\<close>

section \<open>The tables\<close>

text \<open>What a committed insertion does to the tables.\<close>

definition insert_tables :: "ChatMessage \<Rightarrow> tables \<Rightarrow> tables" where
  "insert_tables m t =
     (if fresh m t then upsert_row (origin m) (sint (sequence m)) (insert_row m t) else t)"

text \<open>
  Ids are unique, no origin uses a sequence number twice, sequence numbers are positive, and
  \<open>sequences\<close> holds for every origin a bound of the sequence numbers it has used, also of
  those whose messages were pruned.
\<close>

definition tables_ok :: "tables \<Rightarrow> bool" where
  "tables_ok t \<longleftrightarrow>
     distinct (map message_id (t_messages t)) \<and>
     distinct (map (\<lambda>m. (origin m, sequence m)) (t_messages t)) \<and>
     list_all (\<lambda>m. 1 \<le> sint (sequence m)) (t_messages t) \<and>
     distinct (map fst (t_sequences t)) \<and>
     list_all (\<lambda>(k, n). 1 \<le> n \<and> n \<le> int64_max) (t_sequences t) \<and>
     list_all (\<lambda>m. \<exists>n. map_of (t_sequences t) (origin m) = Some n \<and> sint (sequence m) \<le> n) (t_messages t)"

definition storable :: "ChatMessage \<Rightarrow> bool" where
  "storable m \<longleftrightarrow> 1 \<le> unat (sequence m)"

lemma tables_ok_empty: "tables_ok empty_tables"
  by (simp add: tables_ok_def empty_tables_def)

lemma tables_ok_insert:
  assumes "tables_ok t" and "storable m" and "unat (sequence m) < 2 ^ 63"
  shows "tables_ok (insert_tables m t)"
proof (cases "fresh m t")
  case True
  have "1 \<le> sint (sequence m) \<and> sint (sequence m) \<le> int64_max"
    using assms(2,3) sint_positive by (simp add: storable_def)
  with True assms(1) show ?thesis
    by (auto simp: tables_ok_def insert_tables_def insert_row_def upsert_row_def fresh_def list_all_iff
        fst_insert_or_assign set_insert_or_assign map_of_insert_or_assign dest: map_of_SomeD
        split: option.splits)
next
  case False
  then show ?thesis using assms(1) by (simp add: insert_tables_def)
qed

lemma tables_ok_prune: "tables_ok t \<Longrightarrow> tables_ok (prune_rows t)"
  by (auto simp: tables_ok_def prune_rows_def list_all_iff distinct_drop simp flip: drop_map dest: in_set_dropD)

section \<open>Specification of adding a message\<close>

text \<open>
  What \<open>add\<close> must do, given whether SQLite refused the first attempt because the database is full.
  When it did not, the message is appended or reported as a duplicate, or the attempt failed for
  another reason and nothing changed: no row is ever dropped.  Only when the database is full the
  oldest hundred rows are dropped before the second attempt; a failure on this way leaves the tables
  as they were or with these rows dropped, never a half-written message.
\<close>

inductive add_spec :: "bool \<Rightarrow> ChatMessage \<Rightarrow> tables \<Rightarrow> bool result \<Rightarrow> tables \<Rightarrow> bool" where
  stored: "add_spec False m t (Inr (fresh m t)) (insert_tables m t)" if "unat (sequence m) < 2 ^ 63"
| refused: "add_spec False m t (Inl e) t" if "e \<noteq> DatabaseFull"
| full_stored: "add_spec True m t (Inr (fresh m (prune_rows t))) (insert_tables m (prune_rows t))"
    if "unat (sequence m) < 2 ^ 63"
| full_unpruned: "add_spec True m t (Inl e) t"
| full_refused: "add_spec True m t (Inl e) (prune_rows t)"

inductive_cases add_spec_notfullE: "add_spec False m t r t'"
inductive_cases add_spec_fullE: "add_spec True m t r t'"

text \<open>
  The effect on the tables that a caller can rely on without knowing whether the database was full.
\<close>

inductive add_effect :: "ChatMessage \<Rightarrow> tables \<Rightarrow> bool result \<Rightarrow> tables \<Rightarrow> bool" where
  direct: "add_effect m t (Inr (fresh m t)) (insert_tables m t)" if "unat (sequence m) < 2 ^ 63"
| failed: "add_effect m t (Inl e) t"
| pruned: "add_effect m t (Inr (fresh m (prune_rows t))) (insert_tables m (prune_rows t))"
    if "unat (sequence m) < 2 ^ 63"
| pruned_failed: "add_effect m t (Inl e) (prune_rows t)"

inductive_cases add_effect_InrE: "add_effect m t (Inr b) t'"
inductive_cases add_effect_InlE: "add_effect m t (Inl e) t'"

lemma add_spec_effect: "add_spec full m t r t' \<Longrightarrow> add_effect m t r t'"
  by (induction rule: add_spec.induct) (auto intro: add_effect.intros)

text \<open>Rows are only lost at the old end, and only when the database was full.\<close>

lemma add_spec_retains:
  assumes "add_spec full m t r t'"
  shows "\<exists>k \<le> (if full then 100 else 0). t_messages t' = drop k (t_messages t) @ (if r = Inr True then [m] else [])"
  using assms
proof (induction rule: add_spec.induct)
  case (full_stored m t)
  show ?case
    by (rule exI [of _ 100]) (simp add: insert_tables_def insert_row_def upsert_row_def prune_rows_def)
next
  case (full_refused m t e)
  show ?case by (rule exI [of _ 100]) (simp add: prune_rows_def)
qed (auto simp: insert_tables_def insert_row_def upsert_row_def)

lemma add_effect_True: "add_effect m t (Inr True) t' \<Longrightarrow> m \<in> set (t_messages t') \<and> last (t_messages t') = m"
  by (elim add_effect_InrE) (auto simp: insert_tables_def insert_row_def upsert_row_def)

lemma add_effect_False:
  "add_effect m t (Inr False) t' \<Longrightarrow>
   (\<exists>r \<in> set (t_messages t). message_id r = message_id m \<or> origin r = origin m \<and> sequence r = sequence m)"
  by (elim add_effect_InrE)
     (auto simp: fresh_def list_all_iff prune_rows_def dest!: in_set_dropD)

lemma add_effect_tables_ok: "add_effect m t r t' \<Longrightarrow> tables_ok t \<Longrightarrow> storable m \<Longrightarrow> tables_ok t'"
  by (induction rule: add_effect.induct) (simp_all add: tables_ok_insert tables_ok_prune)

text \<open>The sequence bounds never decrease and never forget an origin.\<close>

lemma add_effect_sequences:
  "add_effect m t r t' \<Longrightarrow> map_of (t_sequences t) k = Some n \<Longrightarrow>
   \<exists>n'. map_of (t_sequences t') k = Some n' \<and> n \<le> n'"
  by (induction rule: add_effect.induct)
     (auto simp: insert_tables_def insert_row_def upsert_row_def prune_rows_def map_of_insert_or_assign
       split: option.splits)

lemma add_effect_rows:
  assumes "add_effect m t r t'" and "x \<in> set (t_messages t')"
  shows "x \<in> set (t_messages t) \<or> x = m"
  using assms
  by (induction rule: add_effect.induct)
     (auto simp: insert_tables_def insert_row_def upsert_row_def prune_rows_def dest: in_set_dropD split: if_splits)

lemma fresh_prune: "fresh m t \<Longrightarrow> fresh m (prune_rows t)"
  by (auto simp: fresh_def list_all_iff prune_rows_def dest: in_set_dropD)

lemma add_effect_fresh:
  assumes "add_effect m t (Inr b) t'" and "fresh m t"
  shows "b \<and> unat (sequence m) < 2 ^ 63"
  using assms fresh_prune by (auto elim: add_effect_InrE)

text \<open>Messages that agree on the id, or on origin and number, are the same message.\<close>

definition consistent :: "ChatMessage set \<Rightarrow> bool" where
  "consistent S \<longleftrightarrow>
     (\<forall>a \<in> S. \<forall>b \<in> S. message_id a = message_id b \<or> (origin a = origin b \<and> sequence a = sequence b) \<longrightarrow> a = b)"

lemma consistent_subset: "consistent S \<Longrightarrow> T \<subseteq> S \<Longrightarrow> consistent T"
  unfolding consistent_def by blast

lemma consistent_fresh:
  "consistent S \<Longrightarrow> set (t_messages t) \<subseteq> S \<Longrightarrow> m \<in> S \<Longrightarrow> m \<notin> set (t_messages t) \<Longrightarrow> fresh m t"
  unfolding consistent_def fresh_def list_all_iff by (metis subsetD)

text \<open>The bounds cover a message: its number is not above the bound of its origin.\<close>

definition covered :: "tables \<Rightarrow> ChatMessage \<Rightarrow> bool" where
  "covered t m \<longleftrightarrow>
     (case map_of (t_sequences t) (origin m) of None \<Rightarrow> False
      | Some n \<Rightarrow> sint (sequence m) \<le> n \<and> 1 \<le> sint (sequence m))"

lemma coveredE:
  assumes "covered t m"
  obtains n where "map_of (t_sequences t) (origin m) = Some n" and "sint (sequence m) \<le> n" and "1 \<le> sint (sequence m)"
  using assms by (auto simp: covered_def split: option.splits)

lemma stored_covered: "tables_ok t \<Longrightarrow> m \<in> set (t_messages t) \<Longrightarrow> covered t m"
  by (fastforce simp: covered_def tables_ok_def list_all_iff)

lemma add_effect_origins:
  "add_effect m t r t' \<Longrightarrow> fst ` set (t_sequences t') \<subseteq> insert (origin m) (fst ` set (t_sequences t))"
  by (induction rule: add_effect.induct)
     (auto simp: insert_tables_def insert_row_def upsert_row_def prune_rows_def dom_map_of_conv_image_fst [symmetric]
       map_of_insert_or_assign split: option.splits if_splits)

section \<open>The bounds as a function of the messages\<close>

text \<open>
  The bounds that a set of messages leads to, whatever the order in which they arrive: for each
  origin the greatest number among its messages and the bound it had before.
\<close>

definition bump :: "(bytes \<rightharpoonup> int) \<Rightarrow> ChatMessage \<Rightarrow> (bytes \<rightharpoonup> int)" where
  "bump b m = b(origin m \<mapsto> (case b (origin m) of None \<Rightarrow> sint (sequence m) | Some l \<Rightarrow> max l (sint (sequence m))))"

definition numbers_of :: "bytes \<Rightarrow> (bytes \<rightharpoonup> int) \<Rightarrow> ChatMessage list \<Rightarrow> int set" where
  "numbers_of k b ms = set_option (b k) \<union> (\<lambda>m. sint (sequence m)) ` {m \<in> set ms. origin m = k}"

lemma foldl_bump: "foldl bump b ms k = (if numbers_of k b ms = {} then None else Some (Max (numbers_of k b ms)))"
proof (induction ms rule: rev_induct)
  case Nil
  then show ?case by (cases "b k") (auto simp: numbers_of_def)
next
  case (snoc m ms)
  have f: "finite (numbers_of k b ms)" by (simp add: numbers_of_def)
  have n: "numbers_of k b (ms @ [m]) =
      (if origin m = k then insert (sint (sequence m)) (numbers_of k b ms) else numbers_of k b ms)"
    by (auto simp: numbers_of_def)
  show ?case using snoc f by (auto simp: n bump_def max.commute)
qed

lemma bump_covered: "covered t m \<Longrightarrow> bump (map_of (t_sequences t)) m = map_of (t_sequences t)"
  by (erule coveredE) (auto simp: bump_def max_def)

lemma insert_tables_bump:
  assumes "tables_ok t" and "consistent (insert m (set (t_messages t)))"
  shows "map_of (t_sequences (insert_tables m t)) = bump (map_of (t_sequences t)) m"
proof (cases "fresh m t")
  case True
  then show ?thesis
    by (auto simp: insert_tables_def insert_row_def upsert_row_def map_of_insert_or_assign bump_def split: option.splits)
next
  case False
  then have "m \<in> set (t_messages t)" using consistent_fresh [OF assms(2)] by auto
  then show ?thesis using False bump_covered stored_covered [OF assms(1)] by (simp add: insert_tables_def)
qed

lemma add_effect_bump:
  assumes "add_effect m t (Inr b) t'" and "tables_ok t" and "consistent (insert m (set (t_messages t)))"
  shows "map_of (t_sequences t') = bump (map_of (t_sequences t)) m"
proof (rule add_effect_InrE [OF assms(1)])
  assume "t' = insert_tables m t"
  then show ?thesis using insert_tables_bump [OF assms(2,3)] by simp
next
  assume t': "t' = insert_tables m (prune_rows t)"
  have "set (t_messages (prune_rows t)) \<subseteq> set (t_messages t)" by (auto simp: prune_rows_def dest: in_set_dropD)
  then have "consistent (insert m (set (t_messages (prune_rows t))))"
    by (intro consistent_subset [OF assms(3)]) auto
  then show ?thesis
    using t' insert_tables_bump [OF tables_ok_prune [OF assms(2)]] by (simp add: prune_rows_def)
qed

section \<open>The interface\<close>

text \<open>
  The callers keep using the store after an exception, so a history is a list of messages added
  one after the other, each with its own outcome.
\<close>

fun add_list :: "(ChatMessage \<Rightarrow> ('s, bool) action) \<Rightarrow> ChatMessage list \<Rightarrow> 's \<Rightarrow> bool result list \<times> 's" where
  "add_list f [] s = ([], s)"
| "add_list f (m # ms) s =
     (case f m s of (r, s1) \<Rightarrow> case add_list f ms s1 of (rs, s2) \<Rightarrow> (r # rs, s2))"

lemma add_list_append:
  "add_list f (xs @ ys) s = (case add_list f xs s of (rs, s1) \<Rightarrow> case add_list f ys s1 of (qs, s2) \<Rightarrow> (rs @ qs, s2))"
  by (induction xs arbitrary: s) (auto split: prod.splits)

lemma add_list_ConsE:
  assumes "add_list f (m # ms) s = (rs, s')"
  obtains r s1 qs where "f m s = (r, s1)" and "add_list f ms s1 = (qs, s')" and "rs = r # qs"
  using assms by (auto split: prod.splits)

text \<open>How often a history found the database full, and the messages it reported as new.\<close>

fun refusals :: "(ChatMessage \<Rightarrow> 's \<Rightarrow> bool) \<Rightarrow> (ChatMessage \<Rightarrow> ('s, bool) action) \<Rightarrow> ChatMessage list \<Rightarrow> 's \<Rightarrow> nat" where
  "refusals full f [] s = 0"
| "refusals full f (m # ms) s = of_bool (full m s) + refusals full f ms (snd (f m s))"

definition reported_new :: "ChatMessage list \<Rightarrow> bool result list \<Rightarrow> ChatMessage list" where
  "reported_new ms rs = map fst (filter (\<lambda>(m, r). r = Inr True) (zip ms rs))"

lemma reported_new_simps [simp]:
  "reported_new [] rs = []" "reported_new (m # ms) (r # rs) = (if r = Inr True then [m] else []) @ reported_new ms rs"
  by (simp_all add: reported_new_def)

locale message_log =
  fixes log_add :: "ChatMessage \<Rightarrow> ('s, bool) action" and log_tables :: "'s \<Rightarrow> tables" and log_ok :: "'s \<Rightarrow> bool"
    and log_full :: "ChatMessage \<Rightarrow> 's \<Rightarrow> bool"
  assumes log_tables_ok: "log_ok s \<Longrightarrow> tables_ok (log_tables s)"
    and log_add_spec: "log_ok s \<Longrightarrow> storable m \<Longrightarrow> log_add m s = (r, s') \<Longrightarrow>
      add_spec (log_full m s) m (log_tables s) r (log_tables s') \<and> log_ok s'"
begin

lemma log_add_effect:
  "log_ok s \<Longrightarrow> storable m \<Longrightarrow> log_add m s = (r, s') \<Longrightarrow>
   add_effect m (log_tables s) r (log_tables s') \<and> log_ok s'"
  using log_add_spec add_spec_effect by blast

text \<open>
  A history keeps what it was given, less the oldest rows, at most a hundred for each time the
  database was full.
\<close>

lemma add_list_retains:
  "log_ok s \<Longrightarrow> list_all storable ms \<Longrightarrow> add_list log_add ms s = (rs, s') \<Longrightarrow>
   \<exists>k \<le> 100 * refusals log_full log_add ms s.
     t_messages (log_tables s') = drop k (t_messages (log_tables s) @ reported_new ms rs)"
proof (induction ms arbitrary: s rs)
  case Nil
  then show ?case by simp
next
  case (Cons m ms)
  obtain r s1 qs where a: "log_add m s = (r, s1)" and b: "add_list log_add ms s1 = (qs, s')" and rs: "rs = r # qs"
    using Cons.prems(3) by (rule add_list_ConsE)
  let ?new = "if r = Inr True then [m] else []"
  have w: "add_spec (log_full m s) m (log_tables s) r (log_tables s1)" "log_ok s1"
    using log_add_spec [OF Cons.prems(1) _ a] Cons.prems(2) by auto
  obtain j where j: "j \<le> 100 * of_bool (log_full m s)" "t_messages (log_tables s1) = drop j (t_messages (log_tables s)) @ ?new"
    using add_spec_retains [OF w(1)] by (auto split: if_splits)
  obtain k where k: "k \<le> 100 * refusals log_full log_add ms s1"
      "t_messages (log_tables s') = drop k (t_messages (log_tables s1) @ reported_new ms qs)"
    using Cons.IH [OF w(2) _ b] Cons.prems(2) by auto
  let ?j = "min j (length (t_messages (log_tables s)))"
  have "t_messages (log_tables s') = drop k (drop j (t_messages (log_tables s)) @ reported_new (m # ms) rs)"
    unfolding k(2) j(2) rs by (simp only: reported_new_simps append_assoc)
  then have "t_messages (log_tables s') = drop (k + ?j) (t_messages (log_tables s) @ reported_new (m # ms) rs)"
    unfolding drop_then_append by (simp only: drop_drop)
  moreover have "k + ?j \<le> 100 * refusals log_full log_add (m # ms) s" using j(1) k(1) a by auto
  ultimately show ?case by blast
qed

lemma add_list_ok:
  "log_ok s \<Longrightarrow> list_all storable ms \<Longrightarrow> add_list log_add ms s = (rs, s') \<Longrightarrow>
   log_ok s' \<and> (\<forall>k n. map_of (t_sequences (log_tables s)) k = Some n \<longrightarrow>
      (\<exists>n'. map_of (t_sequences (log_tables s')) k = Some n' \<and> n \<le> n'))"
proof (induction ms arbitrary: s rs)
  case Nil
  then show ?case by auto
next
  case (Cons m ms)
  obtain r s1 qs where a: "log_add m s = (r, s1)" and b: "add_list log_add ms s1 = (qs, s')"
    using Cons.prems(3) by (rule add_list_ConsE)
  have w: "add_effect m (log_tables s) r (log_tables s1)" "log_ok s1"
    using log_add_effect [OF Cons.prems(1) _ a] Cons.prems(2) by auto
  have "log_ok s' \<and> (\<forall>k n. map_of (t_sequences (log_tables s1)) k = Some n \<longrightarrow>
      (\<exists>n'. map_of (t_sequences (log_tables s')) k = Some n' \<and> n \<le> n'))"
    using Cons.IH [OF w(2) _ b] Cons.prems(2) by simp
  then show ?case
    using add_effect_sequences [OF w(1)] by (meson order_trans)
qed

text \<open>The bound of an origin covers every message of it that the history stored.\<close>

lemma add_list_bound:
  "log_ok s \<Longrightarrow> list_all storable ms \<Longrightarrow> add_list log_add ms s = (rs, s') \<Longrightarrow> (m, Inr True) \<in> set (zip ms rs) \<Longrightarrow>
   \<exists>n. map_of (t_sequences (log_tables s')) (origin m) = Some n \<and> sint (sequence m) \<le> n \<and> 1 \<le> sint (sequence m)"
proof (induction ms arbitrary: s rs)
  case Nil
  then show ?case by simp
next
  case (Cons m0 ms)
  obtain r s1 qs where a: "log_add m0 s = (r, s1)" and b: "add_list log_add ms s1 = (qs, s')" and rs: "rs = r # qs"
    using Cons.prems(3) by (rule add_list_ConsE)
  have w: "add_effect m0 (log_tables s) r (log_tables s1)" "log_ok s1"
    using log_add_effect [OF Cons.prems(1) _ a] Cons.prems(2) by auto
  have l: "list_all storable ms" using Cons.prems(2) by simp
  show ?case
  proof (cases "(m, Inr True) \<in> set (zip ms qs)")
    case True
    then show ?thesis using Cons.IH [OF w(2) l b] by simp
  next
    case False
    then have "m = m0" "r = Inr True" using Cons.prems(4) rs by auto
    then have "m \<in> set (t_messages (log_tables s1))" using add_effect_True w(1) by blast
    then obtain n where "map_of (t_sequences (log_tables s1)) (origin m) = Some n"
        "sint (sequence m) \<le> n" "1 \<le> sint (sequence m)"
      using log_tables_ok [OF w(2)] by (auto simp: tables_ok_def list_all_iff)
    then show ?thesis using add_list_ok [OF w(2) l b] by (meson order_trans)
  qed
qed

lemma add_list_covered:
  "log_ok s \<Longrightarrow> list_all storable ms \<Longrightarrow> add_list log_add ms s = (rs, s') \<Longrightarrow> covered (log_tables s) m \<Longrightarrow>
   covered (log_tables s') m"
  using add_list_ok [of s ms rs s'] by (elim coveredE) (fastforce simp: covered_def)

lemma add_list_origins:
  "log_ok s \<Longrightarrow> list_all storable ms \<Longrightarrow> add_list log_add ms s = (rs, s') \<Longrightarrow>
   fst ` set (t_sequences (log_tables s')) \<subseteq> fst ` set (t_sequences (log_tables s)) \<union> origin ` set ms"
proof (induction ms arbitrary: s rs)
  case Nil
  then show ?case by simp
next
  case (Cons m ms)
  obtain r s1 qs where a: "log_add m s = (r, s1)" and b: "add_list log_add ms s1 = (qs, s')"
    using Cons.prems(3) by (rule add_list_ConsE)
  have w: "add_effect m (log_tables s) r (log_tables s1)" "log_ok s1"
    using log_add_effect [OF Cons.prems(1) _ a] Cons.prems(2) by auto
  have "fst ` set (t_sequences (log_tables s')) \<subseteq> fst ` set (t_sequences (log_tables s1)) \<union> origin ` set ms"
    using Cons.IH [OF w(2) _ b] Cons.prems(2) by simp
  then show ?case using add_effect_origins [OF w(1)] by auto
qed

text \<open>Adding messages none of which is stored yet: each is reported as new, unless adding it throws.\<close>

lemma add_list_new:
  "log_ok s \<Longrightarrow> list_all storable ms \<Longrightarrow> distinct ms \<Longrightarrow> consistent (set (t_messages (log_tables s)) \<union> set ms) \<Longrightarrow>
   set ms \<inter> set (t_messages (log_tables s)) = {} \<Longrightarrow> add_list log_add ms s = (rs, s') \<Longrightarrow>
   list_all (\<lambda>r. r \<in> range Inr) rs \<Longrightarrow> rs = map (\<lambda>_. Inr True) ms"
proof (induction ms arbitrary: s rs)
  case Nil
  then show ?case by simp
next
  case (Cons m ms)
  obtain r s1 qs where a: "log_add m s = (r, s1)" and q: "add_list log_add ms s1 = (qs, s')" and rs: "rs = r # qs"
    using Cons.prems(6) by (rule add_list_ConsE)
  obtain b where b: "r = Inr b" using Cons.prems(7) rs by auto
  have w: "add_effect m (log_tables s) (Inr b) (log_tables s1)" "log_ok s1"
    using log_add_effect [OF Cons.prems(1) _ a] Cons.prems(2) b by auto
  have "fresh m (log_tables s)"
    using Cons.prems(4,5) by (intro consistent_fresh [OF Cons.prems(4)]) auto
  then have "b" using add_effect_fresh [OF w(1)] by blast
  have rows: "set (t_messages (log_tables s1)) \<subseteq> insert m (set (t_messages (log_tables s)))"
    using add_effect_rows [OF w(1)] by blast
  have "consistent (set (t_messages (log_tables s1)) \<union> set ms)"
    using rows by (intro consistent_subset [OF Cons.prems(4)]) auto
  moreover have "set ms \<inter> set (t_messages (log_tables s1)) = {}"
    using Cons.prems(3,5) rows by auto
  ultimately have "qs = map (\<lambda>_. Inr True) ms"
    using Cons.IH [OF w(2) _ _ _ _ q] Cons.prems(2,3,7) rs by auto
  then show ?case using rs b \<open>b\<close> by simp
qed

lemma add_list_rows:
  "log_ok s \<Longrightarrow> list_all storable ms \<Longrightarrow> add_list log_add ms s = (rs, s') \<Longrightarrow>
   set (t_messages (log_tables s')) \<subseteq> set (t_messages (log_tables s)) \<union> set ms"
proof (induction ms arbitrary: s rs)
  case Nil
  then show ?case by simp
next
  case (Cons m ms)
  obtain r s1 qs where a: "log_add m s = (r, s1)" and b: "add_list log_add ms s1 = (qs, s')"
    using Cons.prems(3) by (rule add_list_ConsE)
  have w: "add_effect m (log_tables s) r (log_tables s1)" "log_ok s1"
    using log_add_effect [OF Cons.prems(1) _ a] Cons.prems(2) by auto
  have "set (t_messages (log_tables s')) \<subseteq> set (t_messages (log_tables s1)) \<union> set ms"
    using Cons.IH [OF w(2) _ b] Cons.prems(2) by simp
  then show ?case using add_effect_rows [OF w(1)] by auto
qed

text \<open>After a history without exceptions the bounds depend only on the messages it delivered.\<close>

lemma add_list_bumps:
  "log_ok s \<Longrightarrow> list_all storable ms \<Longrightarrow> consistent (set (t_messages (log_tables s)) \<union> set ms) \<Longrightarrow>
   add_list log_add ms s = (rs, s') \<Longrightarrow> list_all (\<lambda>r. r \<in> range Inr) rs \<Longrightarrow>
   map_of (t_sequences (log_tables s')) = foldl bump (map_of (t_sequences (log_tables s))) ms"
proof (induction ms arbitrary: s rs)
  case Nil
  then show ?case by simp
next
  case (Cons m ms)
  obtain r s1 qs where a: "log_add m s = (r, s1)" and q: "add_list log_add ms s1 = (qs, s')" and rs: "rs = r # qs"
    using Cons.prems(4) by (rule add_list_ConsE)
  obtain b where b: "r = Inr b" using Cons.prems(5) rs by auto
  have w: "add_effect m (log_tables s) (Inr b) (log_tables s1)" "log_ok s1"
    using log_add_effect [OF Cons.prems(1) _ a] Cons.prems(2) b by auto
  have "consistent (insert m (set (t_messages (log_tables s))))"
    by (rule consistent_subset [OF Cons.prems(3)]) auto
  then have "map_of (t_sequences (log_tables s1)) = bump (map_of (t_sequences (log_tables s))) m"
    by (rule add_effect_bump [OF w(1) log_tables_ok [OF Cons.prems(1)]])
  moreover have "consistent (set (t_messages (log_tables s1)) \<union> set ms)"
    using add_effect_rows [OF w(1)] by (intro consistent_subset [OF Cons.prems(3)]) auto
  then have "map_of (t_sequences (log_tables s')) = foldl bump (map_of (t_sequences (log_tables s1))) ms"
    using Cons.IH [OF w(2) _ _ q] Cons.prems(2,5) rs by simp
  ultimately show ?case by simp
qed

end

end
