(* ===== verification/Les_Store.thy ===== *)
theory Les_Store
  imports Les_Sqlite_Ref Les_Log
begin

text \<open>
  \<open>message_store.cpp\<close>: the persistent, bounded and duplicate-free message log, with the
  in-memory copy \<open>messages_\<close> (here \<open>store_messages\<close>) that the readers use.  Every member function is a function on
  the store that returns its result, or the exception it throws, together with the store it
  leaves behind.
\<close>

record 'db MessageStore =
  store_db :: 'db
  store_messages :: "ChatMessage list"

section \<open>Statements\<close>

definition execute :: "'db sqlite \<Rightarrow> bytes \<Rightarrow> ('db, unit) action" where
  "execute E sql = (\<lambda>db.
     case exec E sql db of (rc, db') \<Rightarrow>
       if rc \<noteq> SQLITE_OK then
         (if rc = SQLITE_FULL then (Inl DatabaseFull, db')
          else (Inl (RuntimeError (''SQLite operation failed: '' @
            (case exec_error E db' of None \<Rightarrow> errmsg E db' | Some error \<Rightarrow> error))), db'))
       else (Inr (), db'))"

definition prepare :: "'db sqlite \<Rightarrow> bytes \<Rightarrow> ('db, unit) action" where
  "prepare E sql = (\<lambda>db.
     if \<not> prepare_v2 E sql db then (Inl (RuntimeError (''SQLite prepare failed: '' @ errmsg E db)), db)
     else (Inr (), db))"

definition bind_text :: "'db sqlite \<Rightarrow> bytes \<Rightarrow> ('db, unit) action" where
  "bind_text E v = (\<lambda>db.
     if \<not> bind_text_ok E v then (Inl (RuntimeError ''SQLite text binding failed''), db)
     else (Inr (), db))"

fun bind_texts :: "'db sqlite \<Rightarrow> bytes list \<Rightarrow> ('db, unit) action" where
  "bind_texts E [] = ret ()"
| "bind_texts E (v # vs) = andthen (bind_text E v) (\<lambda>_. bind_texts E vs)"

text \<open>The code of the first \<open>sqlite3_step\<close> on a statement.\<close>

definition first_step :: "sqlrow list \<Rightarrow> sqlite_rc \<Rightarrow> sqlite_rc" where
  "first_step rows rc = (if rows \<noteq> [] then SQLITE_ROW else rc)"

definition column :: "sqlrow \<Rightarrow> nat \<Rightarrow> sqlval" where
  "column row i = (if i < length row then row ! i else SNull)"

definition column_text :: "'db sqlite \<Rightarrow> sqlrow \<Rightarrow> nat \<Rightarrow> bytes" where
  "column_text E row i =
     (case value_text E (column row i) of
        None \<Rightarrow> []
      | Some text \<Rightarrow>
          let n = value_bytes E (column row i) in if n < 0 then [] else take (nat n) text)"

definition column_int64 :: "'db sqlite \<Rightarrow> sqlrow \<Rightarrow> nat \<Rightarrow> int" where
  "column_int64 E row i = value_int64 E (column row i)"

section \<open>Opening\<close>

definition max_pages :: "u64 \<Rightarrow> int \<Rightarrow> u64" where
  "max_pages max_bytes page_size = max 1 (max_bytes div word_of_int page_size)"

definition read_page_size :: "'db sqlite \<Rightarrow> ('db, int) action" where
  "read_page_size E =
     andthen (prepare E sql_page_size) (\<lambda>_ db.
       case run E sql_page_size [] db of (rows, rc, db') \<Rightarrow>
         if first_step rows rc \<noteq> SQLITE_ROW
         then (Inl (RuntimeError ''Unable to read SQLite page size''), db')
         else let page_size = column_int64 E (hd rows) 0 in
           if page_size \<le> 0 then (Inl (RuntimeError ''SQLite returned an invalid page size''), db')
           else (Inr page_size, db'))"

definition initialize_schema :: "'db sqlite \<Rightarrow> u64 \<Rightarrow> ('db, unit) action" where
  "initialize_schema E max_bytes =
     andthen (execute E sql_journal_mode) (\<lambda>_.
     andthen (execute E sql_synchronous) (\<lambda>_.
     andthen (execute E sql_foreign_keys) (\<lambda>_.
     andthen (read_page_size E) (\<lambda>page_size.
     andthen (execute E (sql_max_page_count (unat (max_pages max_bytes page_size)))) (\<lambda>_.
     andthen (execute E sql_create_messages) (\<lambda>_.
     execute E sql_create_sequences))))))"

definition message_of_row :: "'db sqlite \<Rightarrow> sqlrow \<Rightarrow> ChatMessage" where
  "message_of_row E row =
     \<lparr>sequence = word_of_int (column_int64 E row 0), message_id = column_text E row 1,
      origin = column_text E row 2, callsign = column_text E row 3, channel = column_text E row 4,
      created_at_ms = column_int64 E row 5, body = column_text E row 6\<rparr>"

fun load_rows :: "'db sqlite \<Rightarrow> 'db \<Rightarrow> sqlrow list \<Rightarrow> sqlite_rc \<Rightarrow> ChatMessage list \<Rightarrow>
    exn option \<times> ChatMessage list" where
  "load_rows E db [] rc acc =
     (if rc = SQLITE_DONE then (None, acc)
      else (Some (RuntimeError (''Unable to load messages: '' @ errmsg E db)), acc))"
| "load_rows E db (row # rows) rc acc =
     (if column_int64 E row 0 < 1
      then (Some (RuntimeError ''Database contains an invalid sequence''), acc)
      else load_rows E db rows rc (acc @ [message_of_row E row]))"

definition load_messages :: "'db sqlite \<Rightarrow> ('db MessageStore, unit) action" where
  "load_messages E = (\<lambda>s.
     let s0 = s\<lparr>store_messages := []\<rparr> in
     case prepare E sql_select_messages (store_db s0) of
       (Inl e, db) \<Rightarrow> (Inl e, s0\<lparr>store_db := db\<rparr>)
     | (Inr _, db) \<Rightarrow>
         (case run E sql_select_messages [] db of (rows, rc, db') \<Rightarrow>
            case load_rows E db' rows rc [] of (err, ms) \<Rightarrow>
              (case err of None \<Rightarrow> Inr () | Some e \<Rightarrow> Inl e,
               s0\<lparr>store_db := db', store_messages := ms\<rparr>)))"

text \<open>The constructor: the handle is closed again when anything after the opening throws.\<close>

definition open_store :: "'db sqlite \<Rightarrow> bytes \<Rightarrow> u64 \<Rightarrow> 'db MessageStore result" where
  "open_store E database_path max_bytes =
     (if database_path = [] \<or> max_bytes = 0
      then Inl (InvalidArgument ''Database path and size limit must be provided'')
      else
        (case open_v2 E (c_str database_path) of (rc, handle) \<Rightarrow>
           if rc \<noteq> SQLITE_OK then
             Inl (RuntimeError (''Unable to open message database: '' @
               (case handle of None \<Rightarrow> ''unknown SQLite error'' | Some db \<Rightarrow> errmsg E db)))
           else
             (case handle of
                None \<Rightarrow> Inl (RuntimeError ''Unable to open message database: unknown SQLite error'')
              | Some db \<Rightarrow>
                  (case initialize_schema E max_bytes db of
                     (Inl e, _) \<Rightarrow> Inl e
                   | (Inr _, db') \<Rightarrow>
                       (case load_messages E \<lparr>store_db = db', store_messages = []\<rparr> of
                          (Inl e, _) \<Rightarrow> Inl e
                        | (Inr _, s) \<Rightarrow> Inr s)))))"

section \<open>Queries\<close>

definition contains :: "'db sqlite \<Rightarrow> bytes \<Rightarrow> ('db MessageStore, bool) action" where
  "contains E mid = (\<lambda>s.
     case andthen (prepare E sql_contains) (\<lambda>_. andthen (bind_text E mid) (\<lambda>_ db.
            case run E sql_contains [SText mid] db of (rows, rc, db') \<Rightarrow>
              (Inr (first_step rows rc = SQLITE_ROW), db'))) (store_db s)
     of (r, db) \<Rightarrow> (r, s\<lparr>store_db := db\<rparr>))"

definition messages :: "'db MessageStore \<Rightarrow> ChatMessage list" where
  "messages s = store_messages s"

definition next_sequence :: "'db sqlite \<Rightarrow> bytes \<Rightarrow> ('db MessageStore, u64) action" where
  "next_sequence E orig = (\<lambda>s.
     case andthen (prepare E sql_last_sequence) (\<lambda>_. andthen (bind_text E orig) (\<lambda>_ db.
            case run E sql_last_sequence [SText orig] db of (rows, rc, db') \<Rightarrow>
              if first_step rows rc \<noteq> SQLITE_ROW then (Inr 1, db')
              else let l = column_int64 E (hd rows) 0 in
                if l < 0 \<or> l = int64_max
                then (Inl (RuntimeError ''Stored message sequence is invalid''), db')
                else (Inr (word_of_int l + 1), db'))) (store_db s)
     of (r, db) \<Rightarrow> (r, s\<lparr>store_db := db\<rparr>))"

fun summary_rows_loop :: "'db sqlite \<Rightarrow> sqlrow list \<Rightarrow> sqlite_rc \<Rightarrow> (bytes \<times> u64) list \<Rightarrow>
    (bytes \<times> u64) list result" where
  "summary_rows_loop E [] rc acc =
     (if rc = SQLITE_DONE then Inr acc else Inl (RuntimeError ''Unable to read sequence summary''))"
| "summary_rows_loop E (row # rows) rc acc =
     (if column_int64 E row 1 < 0
      then Inl (RuntimeError ''Stored sequence summary is invalid'')
      else summary_rows_loop E rows rc
             (emplace (column_text E row 0) (word_of_int (column_int64 E row 1)) acc))"

definition sequence_summary :: "'db sqlite \<Rightarrow> ('db MessageStore, (bytes \<times> u64) list) action" where
  "sequence_summary E = (\<lambda>s.
     case andthen (prepare E sql_summary) (\<lambda>_ db.
            case run E sql_summary [] db of (rows, rc, db') \<Rightarrow>
              (summary_rows_loop E rows rc [], db')) (store_db s)
     of (r, db) \<Rightarrow> (r, s\<lparr>store_db := db\<rparr>))"

section \<open>Inserting\<close>

definition update_sequence :: "'db sqlite \<Rightarrow> ChatMessage \<Rightarrow> ('db, unit) action" where
  "update_sequence E message =
     andthen (prepare E sql_upsert) (\<lambda>_.
     andthen (bind_text E (origin message)) (\<lambda>_ db.
       case run E sql_upsert [SText (origin message), SInt (sint (sequence message))] db of
         (rows, rc, db') \<Rightarrow>
           let update_result = first_step rows rc in
           if update_result = SQLITE_FULL then (Inl DatabaseFull, db')
           else if update_result \<noteq> SQLITE_DONE
             then (Inl (RuntimeError ''Unable to update message sequence''), db')
           else (Inr (), db')))"

definition insert_body :: "'db sqlite \<Rightarrow> ChatMessage \<Rightarrow> ('db, bool) action" where
  "insert_body E message =
     (if unat (sequence message) > 2 ^ 63 - 1
      then throw (RuntimeError ''Message sequence exceeds SQLite range'')
      else
        andthen (prepare E sql_insert) (\<lambda>_.
        andthen (bind_texts E [origin message, message_id message, callsign message,
                               channel message, body message]) (\<lambda>_ db.
          case run E sql_insert (insert_args message) db of (rows, rc, db1) \<Rightarrow>
            let insert_result = first_step rows rc in
            if insert_result = SQLITE_FULL then (Inl DatabaseFull, db1)
            else if insert_result \<noteq> SQLITE_DONE
              then (Inl (RuntimeError (''Unable to store message: '' @ errmsg E db1)), db1)
            else
              let inserted = (changes E db1 \<noteq> 0) in
              andthen (if inserted then update_sequence E message else ret ()) (\<lambda>_.
              andthen (execute E sql_commit) (\<lambda>_. ret inserted)) db1)))"

definition insert_message :: "'db sqlite \<Rightarrow> ChatMessage \<Rightarrow> ('db, bool) action" where
  "insert_message E message =
     andthen (execute E sql_begin) (\<lambda>_ db.
       case insert_body E message db of
         (Inr inserted, db') \<Rightarrow> (Inr inserted, db')
       | (Inl e, db') \<Rightarrow> (Inl e, snd (execute E sql_rollback db')))"

definition prune_oldest_messages :: "'db sqlite \<Rightarrow> ('db MessageStore, unit) action" where
  "prune_oldest_messages E = (\<lambda>s.
     case execute E sql_prune (store_db s) of
       (Inl e, db) \<Rightarrow> (Inl e, s\<lparr>store_db := db\<rparr>)
     | (Inr _, db) \<Rightarrow> load_messages E (s\<lparr>store_db := db\<rparr>))"

definition insert_and_remember :: "'db sqlite \<Rightarrow> ChatMessage \<Rightarrow> ('db MessageStore, bool) action" where
  "insert_and_remember E message = (\<lambda>s.
     case insert_message E message (store_db s) of
       (Inl e, db) \<Rightarrow> (Inl e, s\<lparr>store_db := db\<rparr>)
     | (Inr inserted, db) \<Rightarrow>
         (Inr inserted,
          if inserted then s\<lparr>store_db := db, store_messages := store_messages s @ [message]\<rparr>
          else s\<lparr>store_db := db\<rparr>))"

definition add :: "'db sqlite \<Rightarrow> ChatMessage \<Rightarrow> ('db MessageStore, bool) action" where
  "add E message = (\<lambda>s.
     case insert_and_remember E message s of
       (Inr inserted, s') \<Rightarrow> (Inr inserted, s')
     | (Inl e, s') \<Rightarrow>
         if e = DatabaseFull
         then andthen (prune_oldest_messages E) (\<lambda>_. insert_and_remember E message) s'
         else (Inl e, s'))"

section \<open>The transaction is all or nothing\<close>

text \<open>In the middle of the transaction: still open, or rolled back by SQLite.\<close>

definition undoable :: "('db \<Rightarrow> db_view) \<Rightarrow> tables \<Rightarrow> 'db \<Rightarrow> bool" where
  "undoable view s db \<longleftrightarrow> snd (view db) = Some s \<or> view db = (s, None)"

lemma execute_Inr: "execute E sql db = (Inr u, db') \<longleftrightarrow> exec E sql db = (SQLITE_OK, db')"
  by (auto simp: execute_def split: prod.splits if_splits)

lemma execute_Inl: "execute E sql db = (Inl e, db') \<Longrightarrow> \<exists>rc. rc \<noteq> SQLITE_OK \<and> exec E sql db = (rc, db')"
  by (auto simp: execute_def split: prod.splits if_splits)

lemma andthen_prepare:
  "andthen (prepare E sql) f db =
     (if prepare_v2 E sql db then f () db
      else (Inl (RuntimeError (''SQLite prepare failed: '' @ errmsg E db)), db))"
  by (simp add: andthen_def prepare_def)

lemma andthen_bind_text:
  "andthen (bind_text E v) f db =
     (if bind_text_ok E v then f () db else (Inl (RuntimeError ''SQLite text binding failed''), db))"
  by (simp add: andthen_def bind_text_def)

lemma andthen_bind_texts:
  "andthen (bind_texts E vs) f db =
     (if list_all (bind_text_ok E) vs then f () db
      else (Inl (RuntimeError ''SQLite text binding failed''), db))"
proof -
  have "bind_texts E vs db = (if list_all (bind_text_ok E) vs then (Inr (), db)
      else (Inl (RuntimeError ''SQLite text binding failed''), db))"
    by (induction vs) (auto simp: andthen_bind_text)
  then show ?thesis by (simp add: andthen_def)
qed

lemmas statement_simps = andthen_prepare andthen_bind_text andthen_bind_texts first_step_def Let_def

context sqlite_engine
begin

text \<open>The outcome of each step, by the outcome of the library call it makes.\<close>

lemma update_sequence_cases:
  assumes "view db = (t, Some s)"
  shows "case update_sequence E m db of
    (Inr _, db') \<Rightarrow> view db' = (upsert_row (origin m) (sint (sequence m)) t, Some s)
  | (Inl _, db') \<Rightarrow> undoable view s db'"
proof -
  obtain rows rc db1 where r: "run E sql_upsert [SText (origin m), SInt (sint (sequence m))] db = (rows, rc, db1)"
    by (metis prod_cases3)
  have "rows = []" using r by (rule upsert_no_rows)
  then show ?thesis
    using assms r upsert_done [of "origin m" "sint (sequence m)" db rows db1 t "Some s"]
      upsert_failed [OF r _ assms]
    by (auto simp: update_sequence_def statement_simps undoable_def)
qed

lemma commit_cases:
  assumes "view db = (t, Some s)"
  shows "case execute E sql_commit db of
    (Inr _, db') \<Rightarrow> view db' = (t, None) | (Inl _, db') \<Rightarrow> undoable view s db'"
proof -
  obtain rc db1 where r: "exec E sql_commit db = (rc, db1)" by fastforce
  show ?thesis
    using r commit_ok [of db db1 t s] commit_failed [OF r _ assms] assms
    by (auto simp: execute_def undoable_def)
qed

lemma finish_cases:
  assumes "view db = (insert_row m t, Some t)"
  shows "case andthen (if fresh m t then update_sequence E m else ret ()) (\<lambda>_.
      andthen (execute E sql_commit) (\<lambda>_. ret b)) db of
    (Inr b', db') \<Rightarrow> b' = b \<and> view db' = (insert_tables m t, None)
  | (Inl _, db') \<Rightarrow> undoable view t db'"
proof (cases "fresh m t")
  case True
  obtain r1 db1 where u: "update_sequence E m db = (r1, db1)" by fastforce
  obtain r2 db2 where c: "execute E sql_commit db1 = (r2, db2)" by fastforce
  show ?thesis
    using update_sequence_cases [OF assms, of m] commit_cases [of db1 "insert_tables m t" t] True u c
    by (cases r1; cases r2) (auto simp: andthen_def insert_tables_def)
next
  case False
  obtain r2 db2 where c: "execute E sql_commit db = (r2, db2)" by fastforce
  show ?thesis
    using commit_cases [of db "insert_tables m t" t] False c assms
    by (cases r2) (auto simp: andthen_def insert_tables_def insert_row_def)
qed



lemma insert_body_cases:
  assumes "view db = (t, Some t)"
  shows "case insert_body E m db of
    (Inr b, db') \<Rightarrow> b = fresh m t \<and> unat (sequence m) < 2 ^ 63 \<and> view db' = (insert_tables m t, None)
  | (Inl _, db') \<Rightarrow> undoable view t db'"
proof -
  obtain rows rc db1 where r: "run E sql_insert (insert_args m) db = (rows, rc, db1)"
    by (metis prod_cases3)
  have rows: "rows = []" using r by (rule insert_no_rows)
  show ?thesis
  proof (cases "rc = SQLITE_DONE")
    case True
    have v: "view db1 = (insert_row m t, Some t)" and ch: "changes E db1 = of_bool (fresh m t)"
      using insert_done [OF r [unfolded True] assms] by auto
    show ?thesis
      using finish_cases [OF v, of "fresh m t"] r rows True ch assms
      by (auto simp: insert_body_def statement_simps undoable_def simp del: bind_texts.simps split: prod.splits sum.splits)
  next
    case False
    then show ?thesis
      using insert_failed [OF r _ assms] r rows assms
      by (auto simp: insert_body_def statement_simps undoable_def simp del: bind_texts.simps)
  qed
qed

lemma insert_message_cases:
  assumes "view db = (t, None)"
  shows "case insert_message E m db of
    (Inr b, db') \<Rightarrow> b = fresh m t \<and> unat (sequence m) < 2 ^ 63 \<and> view db' = (insert_tables m t, None)
  | (Inl _, db') \<Rightarrow> view db' = (t, None)"
proof -
  obtain rc db1 where r: "exec E sql_begin db = (rc, db1)" by fastforce
  show ?thesis
  proof (cases "rc = SQLITE_OK")
    case False
    then show ?thesis
      using r begin_failed [OF r] assms by (simp add: insert_message_def andthen_def execute_def)
  next
    case True
    have v: "view db1 = (t, Some t)"
      using begin_ok [OF r [unfolded True] assms] .
    obtain res db2 where b: "insert_body E m db1 = (res, db2)" by fastforce
    obtain rc3 db3 where rb: "exec E sql_rollback db2 = (rc3, db3)" by fastforce
    have "undoable view t db2 \<Longrightarrow> view db3 = (t, None)"
      using rollback_open [OF rb] rollback_closed [OF rb] by (cases "view db2") (auto simp: undoable_def)
    then show ?thesis
      using insert_body_cases [OF v, of m] r True b rb
      by (cases res) (auto simp: insert_message_def andthen_def execute_def)
  qed
qed

end

section \<open>When the database is full\<close>

text \<open>
  The codes of SQLite decide: one attempt to insert a message ends with \<open>SQLITE_FULL\<close> when \<open>BEGIN\<close>,
  the insertion, the update of the bound (of a new message) or \<open>COMMIT\<close> answers with it, every
  statement before having succeeded.
\<close>

definition answers_full :: "'db sqlite \<Rightarrow> ChatMessage \<Rightarrow> 'db \<Rightarrow> bool" where
  "answers_full E m db \<longleftrightarrow>
     (case exec E sql_begin db of (rc, db0) \<Rightarrow>
        rc = SQLITE_FULL \<or>
        rc = SQLITE_OK \<and> unat (sequence m) < 2 ^ 63 \<and> prepare_v2 E sql_insert db0 \<and>
        list_all (bind_text_ok E) [origin m, message_id m, callsign m, channel m, body m] \<and>
        (case run E sql_insert (insert_args m) db0 of (_, rc, db1) \<Rightarrow>
           rc = SQLITE_FULL \<or>
           rc = SQLITE_DONE \<and>
           (if changes E db1 = 0 then fst (exec E sql_commit db1) = SQLITE_FULL
            else prepare_v2 E sql_upsert db1 \<and> bind_text_ok E (origin m) \<and>
              (case run E sql_upsert [SText (origin m), SInt (sint (sequence m))] db1 of (_, rc, db2) \<Rightarrow>
                 rc = SQLITE_FULL \<or> rc = SQLITE_DONE \<and> fst (exec E sql_commit db2) = SQLITE_FULL))))"

lemma commit_full:
  "fst (andthen (execute E sql_commit) (\<lambda>_. ret b) db) = Inl DatabaseFull \<longleftrightarrow> fst (exec E sql_commit db) = SQLITE_FULL"
  by (auto simp: andthen_def execute_def ret_def split: prod.splits)

context sqlite_engine
begin

lemma update_full:
  "fst (andthen (update_sequence E m) (\<lambda>_. andthen (execute E sql_commit) (\<lambda>_. ret b)) db) = Inl DatabaseFull \<longleftrightarrow>
     prepare_v2 E sql_upsert db \<and> bind_text_ok E (origin m) \<and>
     (case run E sql_upsert [SText (origin m), SInt (sint (sequence m))] db of (_, rc, db') \<Rightarrow>
        rc = SQLITE_FULL \<or> rc = SQLITE_DONE \<and> fst (exec E sql_commit db') = SQLITE_FULL)"
proof -
  obtain rows rc db' where r: "run E sql_upsert [SText (origin m), SInt (sint (sequence m))] db = (rows, rc, db')"
    by (metis prod_cases3)
  have u: "update_sequence E m db =
      (if \<not> prepare_v2 E sql_upsert db then (Inl (RuntimeError (''SQLite prepare failed: '' @ errmsg E db)), db)
       else if \<not> bind_text_ok E (origin m) then (Inl (RuntimeError ''SQLite text binding failed''), db)
       else if rc = SQLITE_FULL then (Inl DatabaseFull, db')
       else if rc \<noteq> SQLITE_DONE then (Inl (RuntimeError ''Unable to update message sequence''), db')
       else (Inr (), db'))"
    using r upsert_no_rows [OF r] by (simp add: update_sequence_def statement_simps)
  show ?thesis
    using u r commit_full [of E b db'] by (simp add: andthen_def [of "update_sequence E m"])
qed

lemma insert_body_full:
  "fst (insert_body E m db) = Inl DatabaseFull \<longleftrightarrow>
     unat (sequence m) < 2 ^ 63 \<and> prepare_v2 E sql_insert db \<and>
     list_all (bind_text_ok E) [origin m, message_id m, callsign m, channel m, body m] \<and>
     (case run E sql_insert (insert_args m) db of (_, rc, db1) \<Rightarrow>
        rc = SQLITE_FULL \<or>
        rc = SQLITE_DONE \<and>
        (if changes E db1 = 0 then fst (exec E sql_commit db1) = SQLITE_FULL
         else prepare_v2 E sql_upsert db1 \<and> bind_text_ok E (origin m) \<and>
           (case run E sql_upsert [SText (origin m), SInt (sint (sequence m))] db1 of (_, rc, db2) \<Rightarrow>
              rc = SQLITE_FULL \<or> rc = SQLITE_DONE \<and> fst (exec E sql_commit db2) = SQLITE_FULL)))"
proof -
  obtain rows rc db1 where r: "run E sql_insert (insert_args m) db = (rows, rc, db1)"
    by (metis prod_cases3)
  have c: "fst (andthen (ret ()) (\<lambda>_. andthen (execute E sql_commit) (\<lambda>_. ret b)) db1) = Inl DatabaseFull \<longleftrightarrow>
      fst (exec E sql_commit db1) = SQLITE_FULL" for b :: bool
  proof -
    have "andthen (ret ()) f db1 = f () db1" for f :: "unit \<Rightarrow> 'db \<Rightarrow> bool result \<times> 'db" by (simp add: andthen_def ret_def)
    then show ?thesis using commit_full [of E b db1] by simp
  qed
  show ?thesis
    using r insert_no_rows [OF r] c [of False] update_full [of m True db1]
    by (auto simp: insert_body_def statement_simps throw_def simp del: bind_texts.simps split del: prod.splits)
qed

lemma insert_message_full: "fst (insert_message E m db) = Inl DatabaseFull \<longleftrightarrow> answers_full E m db"
proof -
  obtain rc db0 where b: "exec E sql_begin db = (rc, db0)" by fastforce
  have "fst (insert_message E m db) =
      (if rc = SQLITE_OK then fst (insert_body E m db0) else fst (map_prod (map_sum id (\<lambda>_. False)) id (execute E sql_begin db)))"
    using b by (auto simp: insert_message_def andthen_def execute_def split: prod.splits sum.splits)
  then show ?thesis
    unfolding answers_full_def b using b insert_body_full [of m db0] by (auto simp: execute_def)
qed

end

section \<open>The invariant of the tables and of the store\<close>

definition store_inv :: "('db \<Rightarrow> db_view) \<Rightarrow> 'db MessageStore \<Rightarrow> bool" where
  "store_inv view s \<longleftrightarrow>
     snd (view (store_db s)) = None \<and> tables_ok (fst (view (store_db s))) \<and>
     store_messages s = t_messages (fst (view (store_db s)))"

context sqlite_engine
begin

lemma message_of_row_inverse: "message_of_row E (message_row m) = m"
  by (simp add: message_of_row_def message_row_def column_text_def column_int64_def column_def
      text_value int_value Let_def)

lemma load_rows_ok:
  "list_all (\<lambda>m. 1 \<le> sint (sequence m)) ms \<Longrightarrow>
   load_rows E db (map message_row ms) rc acc =
     (if rc = SQLITE_DONE then None
      else Some (RuntimeError (''Unable to load messages: '' @ errmsg E db)), acc @ ms)"
proof (induction ms arbitrary: acc)
  case Nil
  then show ?case by simp
next
  case (Cons m ms)
  then show ?case
    using message_of_row_inverse [of m]
    by (simp add: column_int64_def column_def int_value message_row_def)
qed

lemma load_messages_cases:
  assumes v: "view (store_db s) = (t, None)" and t: "tables_ok t"
  shows "case load_messages E s of
    (Inr _, s') \<Rightarrow> view (store_db s') = (t, None) \<and> store_messages s' = t_messages t
  | (Inl _, s') \<Rightarrow> view (store_db s') = (t, None) \<and> (\<exists>k. store_messages s' = take k (t_messages t))"
proof -
  obtain rows rc db1 where r: "run E sql_select_messages [] (store_db s) = (rows, rc, db1)"
    by (metis prod_cases3)
  have v1: "view db1 = (t, None)"
    using select_view [OF _ r] v by simp
  obtain k where k: "rows = map message_row (take k (t_messages t))"
      "rc = SQLITE_DONE \<longrightarrow> rows = map message_row (t_messages t)"
    using select_messages_rows [OF r v] by blast
  have pos: "list_all (\<lambda>m. 1 \<le> sint (sequence m)) (take k (t_messages t))"
    "list_all (\<lambda>m. 1 \<le> sint (sequence m)) (t_messages t)"
    using t by (auto simp: tables_ok_def list_all_iff dest: in_set_takeD)
  have ld: "load_rows E db1 rows rc [] =
      (if rc = SQLITE_DONE then (None, t_messages t)
       else (Some (RuntimeError (''Unable to load messages: '' @ errmsg E db1)), take k (t_messages t)))"
  proof (cases "rc = SQLITE_DONE")
    case True
    then have "rows = map message_row (t_messages t)" using k(2) by simp
    then show ?thesis using load_rows_ok [OF pos(2)] True by simp
  next
    case False
    then show ?thesis using load_rows_ok [OF pos(1)] k(1) by simp
  qed
  show ?thesis
    using v v1 r ld by (auto simp: load_messages_def prepare_def Let_def intro: exI [of _ 0])
qed

lemma insert_and_remember_cases:
  assumes "view (store_db s) = (t, None)" and "store_messages s = t_messages t"
  shows "case insert_and_remember E m s of
    (Inr b, s') \<Rightarrow> b = fresh m t \<and> unat (sequence m) < 2 ^ 63 \<and>
      view (store_db s') = (insert_tables m t, None) \<and> store_messages s' = t_messages (insert_tables m t)
  | (Inl _, s') \<Rightarrow> view (store_db s') = (t, None) \<and> store_messages s' = t_messages t"
proof -
  obtain r db1 where i: "insert_message E m (store_db s) = (r, db1)" by fastforce
  then show ?thesis
    using insert_message_cases [OF assms(1), of m] assms
    by (cases r) (auto simp: insert_and_remember_def insert_tables_def insert_row_def upsert_row_def)
qed

end

section \<open>Adding refines its specification\<close>

definition tables_of :: "('db \<Rightarrow> db_view) \<Rightarrow> 'db MessageStore \<Rightarrow> tables" where
  "tables_of view s = fst (view (store_db s))"

text \<open>
  After a reload that failed half-way the copy in memory misses rows; it never holds a message
  that the database does not.
\<close>

definition store_weak :: "('db \<Rightarrow> db_view) \<Rightarrow> 'db MessageStore \<Rightarrow> bool" where
  "store_weak view s \<longleftrightarrow>
     snd (view (store_db s)) = None \<and> tables_ok (tables_of view s) \<and>
     subseq (store_messages s) (t_messages (tables_of view s))"

lemma subseq_member: "subseq xs ys \<Longrightarrow> x \<in> set xs \<Longrightarrow> x \<in> set ys"
  by (erule list_emb_set) auto

lemma store_inv_weak: "store_inv view s \<Longrightarrow> store_weak view s"
  by (simp add: store_inv_def store_weak_def tables_of_def)

context sqlite_engine
begin

lemma insert_and_remember_weak:
  assumes "view (store_db s) = (t, None)" and "subseq (store_messages s) (t_messages t)"
  shows "case insert_and_remember E m s of
    (Inr b, s') \<Rightarrow> b = fresh m t \<and> unat (sequence m) < 2 ^ 63 \<and>
      view (store_db s') = (insert_tables m t, None) \<and>
      subseq (store_messages s') (t_messages (insert_tables m t))
  | (Inl _, s') \<Rightarrow> view (store_db s') = (t, None) \<and> store_messages s' = store_messages s"
proof -
  obtain r db1 where i: "insert_message E m (store_db s) = (r, db1)" by fastforce
  then show ?thesis
    using insert_message_cases [OF assms(1), of m] assms
    by (cases r) (auto simp: insert_and_remember_def insert_tables_def insert_row_def upsert_row_def
        intro: list_emb_append_mono)
qed

lemma prune_cases:
  assumes "view (store_db s) = (t, None)" and "tables_ok t" and "subseq (store_messages s) (t_messages t)"
  shows "case prune_oldest_messages E s of
    (Inr _, s') \<Rightarrow> view (store_db s') = (prune_rows t, None) \<and> store_messages s' = t_messages (prune_rows t)
  | (Inl _, s') \<Rightarrow> (view (store_db s') = (t, None) \<and> subseq (store_messages s') (t_messages t)) \<or>
      (view (store_db s') = (prune_rows t, None) \<and> subseq (store_messages s') (t_messages (prune_rows t)))"
proof -
  obtain rc db1 where r: "exec E sql_prune (store_db s) = (rc, db1)" by fastforce
  show ?thesis
  proof (cases "rc = SQLITE_OK")
    case False
    then show ?thesis
      using r prune_failed [OF r False assms(1)] assms(3)
      by (simp add: prune_oldest_messages_def execute_def)
  next
    case True
    have v: "view (store_db (s\<lparr>store_db := db1\<rparr>)) = (prune_rows t, None)"
      using prune_ok [OF r [unfolded True] assms(1)] by simp
    have "take k (t_messages (prune_rows t)) = xs \<Longrightarrow> subseq xs (t_messages (prune_rows t))" for k xs
      using take_is_prefix prefix_imp_subseq by blast
    then show ?thesis
      using load_messages_cases [OF v tables_ok_prune [OF assms(2)]] r True
      by (auto simp: prune_oldest_messages_def execute_def split: prod.splits sum.splits)
  qed
qed

end

context sqlite_engine
begin

lemma retry_weak:
  assumes v: "view (store_db s) = (t, None)" and ok: "tables_ok t"
    and sub: "subseq (store_messages s) (t_messages t)"
    and a: "andthen (prune_oldest_messages E) (\<lambda>_. insert_and_remember E m) s = (r, s')"
  shows "add_spec True m t r (tables_of view s') \<and> snd (view (store_db s')) = None \<and>
    subseq (store_messages s') (t_messages (tables_of view s'))"
proof -
  obtain r2 s2 where p: "prune_oldest_messages E s = (r2, s2)" by fastforce
  obtain r3 s3 where i3: "insert_and_remember E m s2 = (r3, s3)" by fastforce
  note c2 = prune_cases [OF v ok sub, unfolded p]
  show ?thesis
  proof (cases r2)
    case (Inl e2)
    then show ?thesis
      using a p c2 add_spec.full_unpruned add_spec.full_refused by (auto simp: andthen_def tables_of_def)
  next
    case (Inr u)
    then have v2: "view (store_db s2) = (prune_rows t, None)"
      and sub2: "subseq (store_messages s2) (t_messages (prune_rows t))"
      using c2 by auto
    note c3 = insert_and_remember_weak [OF v2 sub2, of m, unfolded i3]
    show ?thesis
      using a p Inr i3 c3 sub2 add_spec.full_stored [of m t] add_spec.full_refused
      by (cases r3) (auto simp: andthen_def tables_of_def)
  qed
qed

lemma remember_full:
  "insert_and_remember E m s = (r, s') \<Longrightarrow> r = Inl DatabaseFull \<longleftrightarrow> answers_full E m (store_db s)"
  unfolding insert_message_full [symmetric] insert_and_remember_def by (auto split: prod.splits sum.splits)

lemma add_refines:
  assumes inv: "store_weak view s" and m: "storable m" and a: "add E m s = (r, s')"
  shows "add_spec (answers_full E m (store_db s)) m (tables_of view s) r (tables_of view s') \<and> store_weak view s'"
proof -
  let ?t = "tables_of view s"
  have v: "view (store_db s) = (?t, None)" and ok: "tables_ok ?t"
    and sub: "subseq (store_messages s) (t_messages ?t)"
    using inv by (auto simp: store_weak_def tables_of_def prod_eq_iff)
  obtain r1 s1 where i1: "insert_and_remember E m s = (r1, s1)" by fastforce
  note c1 = insert_and_remember_weak [OF v sub, of m, unfolded i1]
  note full = remember_full [OF i1]
  have spec: "add_spec (answers_full E m (store_db s)) m ?t r (tables_of view s') \<and> snd (view (store_db s')) = None \<and>
      subseq (store_messages s') (t_messages (tables_of view s'))"
  proof (cases r1)
    case (Inr b)
    then show ?thesis
      using c1 a i1 full add_spec.stored [of m ?t] by (auto simp: add_def tables_of_def)
  next
    case (Inl e1)
    then have v1: "view (store_db s1) = (?t, None)" and sub1: "subseq (store_messages s1) (t_messages ?t)"
      using c1 sub by auto
    show ?thesis
      using a i1 Inl v1 sub1 full retry_weak [OF v1 ok sub1, of m r s']
      by (cases "e1 = DatabaseFull") (auto simp: add_def tables_of_def intro: add_spec.refused)
  qed
  moreover have "tables_ok (tables_of view s')"
    using spec ok m add_spec_effect add_effect_tables_ok by blast
  ultimately show ?thesis by (simp add: store_weak_def)
qed

lemma add_weak:
  "store_weak view s \<Longrightarrow> storable m \<Longrightarrow> add E m s = (r, s') \<Longrightarrow>
   add_effect m (tables_of view s) r (tables_of view s') \<and> store_weak view s'"
  using add_refines add_spec_effect by blast

text \<open>A failure that is not for lack of room leaves the store as it was.\<close>

lemma add_refused_coherent:
  assumes inv: "store_inv view s" and a: "add E m s = (Inl e, s')" and full: "\<not> answers_full E m (store_db s)"
  shows "store_inv view s' \<and> tables_of view s' = tables_of view s"
proof -
  let ?t = "tables_of view s"
  have v: "view (store_db s) = (?t, None)" and ok: "tables_ok ?t" and ms: "store_messages s = t_messages ?t"
    using inv by (auto simp: store_inv_def tables_of_def prod_eq_iff)
  obtain r1 s1 where i1: "insert_and_remember E m s = (r1, s1)" by fastforce
  have "r1 = Inl e" "s' = s1"
    using a i1 remember_full [OF i1] full by (auto simp: add_def split: sum.splits if_splits)
  then show ?thesis
    using insert_and_remember_cases [OF v ms, of m, unfolded i1] ok by (simp add: store_inv_def tables_of_def)
qed

lemma add_coherent:
  assumes inv: "store_inv view s" and m: "storable m" and a: "add E m s = (Inr b, s')"
  shows "store_inv view s'"
proof -
  let ?t = "tables_of view s"
  have v: "view (store_db s) = (?t, None)" and ok: "tables_ok ?t" and ms: "store_messages s = t_messages ?t"
    using inv by (auto simp: store_inv_def tables_of_def prod_eq_iff)
  obtain r1 s1 where i1: "insert_and_remember E m s = (r1, s1)" by fastforce
  note c1 = insert_and_remember_cases [OF v ms, of m, unfolded i1]
  obtain r2 s2 where p: "prune_oldest_messages E s1 = (r2, s2)" by fastforce
  have "store_messages s' = t_messages (tables_of view s')"
  proof (cases r1)
    case (Inr b1)
    then show ?thesis using c1 a i1 by (auto simp: add_def tables_of_def)
  next
    case (Inl e1)
    then have full: "e1 = DatabaseFull" and i1': "insert_and_remember E m s = (Inl DatabaseFull, s1)"
      using a i1 by (auto simp: add_def split: if_splits)
    have v1: "view (store_db s1) = (?t, None)" and sub1: "subseq (store_messages s1) (t_messages ?t)"
      using c1 Inl by auto
    note c2 = prune_cases [OF v1 ok sub1, unfolded p]
    have "andthen (prune_oldest_messages E) (\<lambda>_. insert_and_remember E m) s1 = (Inr b, s')"
      using a i1' by (simp add: add_def)
    then obtain u where u: "r2 = Inr u" and i3: "insert_and_remember E m s2 = (Inr b, s')"
      using p by (auto simp: andthen_Inr)
    have v2: "view (store_db s2) = (prune_rows ?t, None)"
      and ms2: "store_messages s2 = t_messages (prune_rows ?t)"
      using c2 u by auto
    from insert_and_remember_cases [OF v2 ms2, of m, unfolded i3] show ?thesis
      by (simp add: tables_of_def)
  qed
  moreover have "store_weak view s'"
    using add_weak [OF store_inv_weak [OF inv] m a] by simp
  ultimately show ?thesis
    by (simp add: store_inv_def store_weak_def tables_of_def)
qed

lemma contains_keeps:
  assumes "contains E k s = (r, s')"
  shows "view (store_db s') = view (store_db s)" and "store_messages s' = store_messages s"
proof -
  obtain rows rc db1 where run: "run E sql_contains [SText k] (store_db s) = (rows, rc, db1)"
    by (metis prod_cases3)
  then show "view (store_db s') = view (store_db s)"
    using assms select_view [OF _ run] by (auto simp: contains_def statement_simps split: if_splits)
  show "store_messages s' = store_messages s"
    using assms by (auto simp: contains_def split: prod.splits)
qed

lemma contains_iff:
  assumes "contains E k s = (Inr b, s')" and "view (store_db s) = (t, so)"
    and "fst (snd (run E sql_contains [SText k] (store_db s))) = SQLITE_DONE"
  shows "b \<longleftrightarrow> k \<in> message_id ` set (t_messages t)"
proof -
  obtain rows rc db1 where run: "run E sql_contains [SText k] (store_db s) = (rows, rc, db1)"
    by (metis prod_cases3)
  then show ?thesis
    using assms contains_rows [OF run assms(2)]
    by (auto simp: contains_def statement_simps split: if_splits)
qed

lemma contains_True:
  assumes "contains E k s = (Inr True, s')" and "view (store_db s) = (t, so)"
  shows "k \<in> message_id ` set (t_messages t)"
proof -
  obtain rows rc db1 where run: "run E sql_contains [SText k] (store_db s) = (rows, rc, db1)"
    by (metis prod_cases3)
  then show ?thesis
    using assms contains_rows [OF run assms(2)] run_final [OF run]
    by (auto simp: contains_def statement_simps split: if_splits)
qed

end

context sqlite_engine
begin

lemma next_sequence_keeps:
  assumes "next_sequence E k s = (r, s')"
  shows "view (store_db s') = view (store_db s)" and "store_messages s' = store_messages s"
proof -
  obtain rows rc db1 where run: "run E sql_last_sequence [SText k] (store_db s) = (rows, rc, db1)"
    by (metis prod_cases3)
  then show "view (store_db s') = view (store_db s)"
    using assms select_view [OF _ run] by (auto simp: next_sequence_def statement_simps split: if_splits)
  show "store_messages s' = store_messages s"
    using assms by (auto simp: next_sequence_def split: prod.splits)
qed

lemma next_sequence_value:
  assumes n: "next_sequence E k s = (Inr n, s')" and t: "view (store_db s) = (t, so)" and ok: "tables_ok t"
    and rd: "fst (snd (run E sql_last_sequence [SText k] (store_db s))) = SQLITE_DONE"
  shows "int (unat n) = (case map_of (t_sequences t) k of None \<Rightarrow> 1 | Some l \<Rightarrow> l + 1)"
proof -
  obtain rows rc db1 where run: "run E sql_last_sequence [SText k] (store_db s) = (rows, rc, db1)"
    by (metis prod_cases3)
  note laws = last_sequence_rows [OF run t]
  show ?thesis
  proof (cases rows)
    case Nil
    then show ?thesis
      using n run rd laws by (auto simp: next_sequence_def statement_simps split: if_splits)
  next
    case (Cons r rs)
    then obtain l where l: "map_of (t_sequences t) k = Some l" "r = [SInt l]"
      using laws by auto
    have b: "1 \<le> l" "l \<le> int64_max"
      using ok map_of_SomeD [OF l(1)] by (auto simp: tables_ok_def list_all_iff)
    have "l \<noteq> int64_max" and nn: "n = word_of_int l + 1"
      using n run Cons l by (auto simp: next_sequence_def statement_simps column_int64_def column_def int_value split: if_splits)
    with b have "l + 1 \<le> int64_max" by simp
    then have "unat (word_of_int (l + 1) :: u64) = nat (l + 1)"
      using u64_of_int64(1) [of "l + 1"] b by (simp add: is_int64_def int64_min_def)
    then show ?thesis
      using b l(1) nn by simp
  qed
qed

lemma next_sequence_above:
  assumes "next_sequence E k s = (Inr n, s')" and "view (store_db s) = (t, so)" and "tables_ok t"
    and "fst (snd (run E sql_last_sequence [SText k] (store_db s))) = SQLITE_DONE"
    and "map_of (t_sequences t) k = Some l" and "sint q \<le> l" and "1 \<le> sint q"
  shows "q < n"
proof -
  have "int (unat n) = l + 1"
    using next_sequence_value [OF assms(1-4)] assms(5) by simp
  moreover have "int (unat q) = sint q"
    using assms(7) by (rule uint_of_positive_sint)
  ultimately have "int (unat q) < int (unat n)" using assms(6) by linarith
  then show ?thesis
    by (simp only: of_nat_less_iff word_less_nat_alt)
qed

lemma next_sequence_unread:
  assumes n: "next_sequence E k s = (Inr n, s')" and t: "view (store_db s) = (t, so)" and ok: "tables_ok t"
    and l: "map_of (t_sequences t) k = Some l" "sint q \<le> l" "1 \<le> sint q"
    and rd: "fst (snd (run E sql_last_sequence [SText k] (store_db s))) \<noteq> SQLITE_DONE"
  shows "q < n \<or> n = 1"
proof -
  obtain rows rc db1 where run: "run E sql_last_sequence [SText k] (store_db s) = (rows, rc, db1)"
    by (metis prod_cases3)
  show ?thesis
  proof (cases rows)
    case Nil
    then show ?thesis
      using n run rd run_final [OF run] by (auto simp: next_sequence_def statement_simps split: if_splits)
  next
    case (Cons r rs)
    then have "r = [SInt l]" using last_sequence_rows [OF run t] l(1) by auto
    have b: "1 \<le> l" "l \<le> int64_max"
      using ok map_of_SomeD [OF l(1)] by (auto simp: tables_ok_def list_all_iff)
    have "l \<noteq> int64_max" and nn: "n = word_of_int l + 1"
      using n run Cons \<open>r = _\<close> by (auto simp: next_sequence_def statement_simps column_int64_def column_def int_value split: if_splits)
    with b have "is_int64 (l + 1)" by (simp add: is_int64_def int64_min_def)
    then have "int (unat n) = l + 1"
      using u64_of_int64(1) [of "l + 1"] b nn by simp
    moreover have "int (unat q) = sint q" using l(3) by (rule uint_of_positive_sint)
    ultimately have "int (unat q) < int (unat n)" using l(2) by linarith
    then have "q < n" by (simp only: of_nat_less_iff word_less_nat_alt)
    then show ?thesis by blast
  qed
qed

lemma next_sequence_unused:
  assumes "next_sequence E k s = (Inr n, s')" and "view (store_db s) = (t, so)" and ok: "tables_ok t"
    and "fst (snd (run E sql_last_sequence [SText k] (store_db s))) = SQLITE_DONE"
    and m: "m \<in> set (t_messages t)" "origin m = k"
  shows "sequence m < n"
proof -
  from m ok obtain l where "map_of (t_sequences t) k = Some l" "sint (sequence m) \<le> l" "1 \<le> sint (sequence m)"
    by (auto simp: tables_ok_def list_all_iff)
  then show ?thesis
    by (rule next_sequence_above [OF assms(1-4)])
qed

end

context sqlite_engine
begin

lemma summary_loop_ok:
  "list_all (\<lambda>(k, n). 0 \<le> n) kvs \<Longrightarrow> distinct (map fst acc @ map fst kvs) \<Longrightarrow>
   summary_rows_loop E (map (\<lambda>(k, n). [SText k, SInt n]) kvs) SQLITE_DONE acc =
     Inr (acc @ map (\<lambda>(k, n). (k, word_of_int n)) kvs)"
proof (induction kvs arbitrary: acc)
  case Nil
  then show ?case by simp
next
  case (Cons kv kvs)
  obtain k n where kv: "kv = (k, n)" by fastforce
  have cols: "column_int64 E [SText k, SInt n] 1 = n" "column_text E [SText k, SInt n] 0 = k"
    by (simp_all add: column_int64_def column_text_def column_def text_value int_value Let_def)
  have "k \<notin> fst ` set acc" using Cons.prems(2) kv by auto
  then have "emplace k (word_of_int n) acc = acc @ [(k, word_of_int n)]" by (simp add: emplace_def)
  then show ?case
    using Cons.IH [of "acc @ [(k, word_of_int n)]"] Cons.prems kv cols by simp
qed

lemma summary_loop_done: "summary_rows_loop E rows rc acc = Inr r \<Longrightarrow> rc = SQLITE_DONE"
  by (induction E rows rc acc rule: summary_rows_loop.induct) (auto split: if_splits)

lemma summary_keeps:
  assumes "sequence_summary E s = (r, s')"
  shows "view (store_db s') = view (store_db s)" and "store_messages s' = store_messages s"
proof -
  obtain rows rc db1 where run: "run E sql_summary [] (store_db s) = (rows, rc, db1)"
    by (metis prod_cases3)
  then show "view (store_db s') = view (store_db s)"
    using assms select_view [OF _ run] by (auto simp: sequence_summary_def statement_simps split: if_splits)
  show "store_messages s' = store_messages s"
    using assms by (auto simp: sequence_summary_def split: prod.splits)
qed

lemma summary_value:
  assumes r: "sequence_summary E s = (Inr r, s')" and t: "view (store_db s) = (t, so)" and ok: "tables_ok t"
  shows "distinct (map fst r) \<and> map_of r k = map_option word_of_int (map_of (t_sequences t) k)"
proof -
  obtain rows rc db1 where run: "run E sql_summary [] (store_db s) = (rows, rc, db1)"
    by (metis prod_cases3)
  then have loop: "summary_rows_loop E rows rc [] = Inr r"
    using r by (auto simp: sequence_summary_def statement_simps split: if_splits)
  then have rc: "rc = SQLITE_DONE" by (rule summary_loop_done)
  obtain kvs where kvs: "mset kvs = mset (t_sequences t)" "rows = map (\<lambda>(k, n). [SText k, SInt n]) kvs"
    using summary_rows [OF run t rc] by blast
  have d: "distinct (map fst kvs)" "distinct (map fst (t_sequences t))"
    using ok distinct_keys_mset [OF kvs(1)] by (auto simp: tables_ok_def)
  have nn: "list_all (\<lambda>(k, n). 0 \<le> n) kvs"
    using ok mset_eq_setD [OF kvs(1)] by (auto simp: tables_ok_def list_all_iff)
  have fsts: "map fst (map (\<lambda>(k, n). (k, word_of_int n)) kvs) = map fst kvs" by auto
  have r': "r = map (\<lambda>(k, n). (k, word_of_int n)) kvs"
    using summary_loop_ok [OF nn, of "[]"] loop d(1) kvs(2) rc by simp
  have "map_of kvs = map_of (t_sequences t)"
    using d mset_eq_setD [OF kvs(1)] by (rule map_of_inject_set [THEN iffD2])
  then have "map_of r k = map_option word_of_int (map_of (t_sequences t) k)"
    unfolding r' by (simp add: map_of_map)
  moreover have "distinct (map fst r)"
    unfolding r' fsts by (rule d(1))
  ultimately show ?thesis by blast
qed

end

context sqlite_engine
begin

lemma execute_pragma_keeps:
  assumes "sql \<in> {sql_journal_mode, sql_synchronous, sql_foreign_keys, sql_max_page_count pages,
     sql_create_messages, sql_create_sequences}"
  shows "keeps (\<lambda>db. view db = v) (execute E sql)"
proof (rule keepsI)
  fix db r db'
  assume x: "execute E sql db = (r, db')" and v: "view db = v"
  obtain rc db1 where e: "exec E sql db = (rc, db1)" by fastforce
  have "view db1 = view db" using assms e by (rule pragma_view)
  then show "view db' = v"
    using x v e by (auto simp: execute_def split: if_splits)
qed

lemma read_page_size_keeps: "keeps (\<lambda>db. view db = v) (read_page_size E)"
  by (rule keepsI)
     (auto simp: read_page_size_def statement_simps split: prod.splits if_splits dest: page_size_view)

lemma initialize_schema_keeps: "keeps (\<lambda>db. view db = v) (initialize_schema E max_bytes)"
  unfolding initialize_schema_def
  by (intro keeps_andthen execute_pragma_keeps read_page_size_keeps) blast+

lemma open_store_reads:
  assumes s: "open_store E path max_bytes = Inr s" and db: "open_v2 E (c_str path) = (SQLITE_OK, Some db)"
    and ok: "tables_ok (fst (view db))"
  shows "store_inv view s \<and> tables_of view s = fst (view db)"
proof -
  let ?t = "fst (view db)"
  have v: "view db = (?t, None)"
    using opened_view [OF db] by (simp add: prod_eq_iff)
  obtain r1 db1 where i: "initialize_schema E max_bytes db = (r1, db1)" by fastforce
  have v1: "view (store_db \<lparr>store_db = db1, store_messages = []\<rparr>) = (?t, None)"
    using keepsD [OF initialize_schema_keeps i v] by simp
  obtain r2 s2 where l: "load_messages E \<lparr>store_db = db1, store_messages = []\<rparr> = (r2, s2)" by fastforce
  from load_messages_cases [OF v1 ok, unfolded l] show ?thesis
    using s db i l ok
    by (auto simp: open_store_def store_inv_def tables_of_def split: if_splits sum.splits)
qed

end

end
