(* ===== verification/Les_History.thy ===== *)
theory Les_History
  imports Les_Store
begin

text \<open>
  What the store promises to its callers: it provides the interface \<open>message_log\<close>, and its
  theorems, with runs on the executable engine as examples.
\<close>

section \<open>Histories of additions\<close>

abbreviation add_all :: "'db sqlite \<Rightarrow> ChatMessage list \<Rightarrow> 'db MessageStore \<Rightarrow> bool result list \<times> 'db MessageStore" where
  "add_all E \<equiv> add_list (add E)"

text \<open>The store on any engine that meets the laws provides the log that the services use.\<close>

sublocale sqlite_engine \<subseteq> log: message_log "add E" "tables_of view" "store_weak view" "\<lambda>m s. answers_full E m (store_db s)"
  by unfold_locales (simp add: store_weak_def, rule add_refines)

context sqlite_engine
begin

lemmas history_ok = log.add_list_ok
lemmas history_bound = log.add_list_bound
lemmas history_new = log.add_list_new
lemmas history_covered = log.add_list_covered
lemmas history_origins = log.add_list_origins
lemmas history_bumps = log.add_list_bumps
lemmas history_rows = log.add_list_rows
lemmas history_retains = log.add_list_retains

end

interpretation reflog: message_log "add (ref_sqlite file)" "tables_of ref_view" "store_weak ref_view"
    "\<lambda>m s. answers_full (ref_sqlite file) m (store_db s)"
  by (rule refengine.log.message_log_axioms)

section \<open>Runs on the executable engine\<close>

lemma ref_insert_fresh:
  assumes "saved db = None" and "fresh m (cur db)" and "length (t_messages (cur db)) < capacity db"
    and "unat (sequence m) < 2 ^ 63"
  shows "insert_message (ref_sqlite f) m db =
    (Inr True, db\<lparr>cur := insert_tables m (cur db), last_changes := 1\<rparr>)"
  using assms
  by (simp add: insert_message_def andthen_def execute_def insert_body_def prepare_def andthen_bind_texts
      bind_text_def ref_insert_def args_message_insert first_step_def insert_tables_def update_sequence_def)

lemma ref_add_fresh:
  assumes "saved db = None" and "fresh m (cur db)" and "length (t_messages (cur db)) < capacity db"
    and "unat (sequence m) < 2 ^ 63"
  shows "add (ref_sqlite f) m \<lparr>store_db = db, store_messages = ms\<rparr> =
    (Inr True, \<lparr>store_db = db\<lparr>cur := insert_tables m (cur db), last_changes := 1\<rparr>,
       store_messages = ms @ [m]\<rparr>)"
  by (simp add: add_def insert_and_remember_def ref_insert_fresh [OF assms])

lemma ref_add_duplicate:
  assumes "saved db = None" and "\<not> fresh m (cur db)" and "unat (sequence m) < 2 ^ 63"
  shows "add (ref_sqlite f) m \<lparr>store_db = db, store_messages = ms\<rparr> =
    (Inr False, \<lparr>store_db = db\<lparr>last_changes := 0\<rparr>, store_messages = ms\<rparr>)"
proof -
  have "insert_message (ref_sqlite f) m db = (Inr False, db\<lparr>last_changes := 0\<rparr>)"
    using assms
    by (simp add: insert_message_def andthen_def execute_def insert_body_def prepare_def andthen_bind_texts
        bind_text_def ref_insert_def args_message_insert first_step_def insert_row_def)
  then show ?thesis by (simp add: add_def insert_and_remember_def)
qed

definition sample_engine :: "refdb sqlite" where
  "sample_engine = ref_sqlite (empty_refdb 5)"

definition sample_store :: "refdb MessageStore" where
  "sample_store = \<lparr>store_db = empty_refdb 5, store_messages = []\<rparr>"

definition sample_stored :: "refdb MessageStore" where
  "sample_stored = \<lparr>store_db = (empty_refdb 5)\<lparr>cur := insert_tables (sample_message 1) empty_tables,
     last_changes := 1\<rparr>, store_messages = [sample_message 1]\<rparr>"

lemma sample_engine_ok: "sqlite_engine sample_engine ref_view"
  unfolding sample_engine_def by (rule refengine.sqlite_engine_axioms)

lemma sample_store_inv: "store_inv ref_view sample_store"
  using tables_ok_empty
  by (simp add: store_inv_def ref_view_def sample_store_def empty_refdb_def) (simp add: empty_tables_def)

lemma sample_storable: "storable (sample_message 1)"
  by (simp add: storable_def sample_message_def)

lemma sample_add: "add sample_engine (sample_message 1) sample_store = (Inr True, sample_stored)"
  unfolding sample_engine_def sample_store_def sample_stored_def
  by (subst ref_add_fresh)
     (simp_all add: empty_refdb_def empty_tables_def fresh_def sample_message_def)

lemma sample_stored_inv: "store_inv ref_view sample_stored"
  using sqlite_engine.add_coherent [OF sample_engine_ok sample_store_inv sample_storable sample_add] .

lemma sample_next: "next_sequence sample_engine ''node-a'' sample_stored = (Inr 2, sample_stored)"
  by (simp add: next_sequence_def statement_simps sample_engine_def sample_stored_def insert_tables_def
      empty_tables_def fresh_def insert_row_def upsert_row_def sample_message_def column_int64_def column_def
      int64_max_def empty_refdb_def)

lemma sample_last_done:
  "fst (snd (run sample_engine sql_last_sequence args db)) = SQLITE_DONE"
  by (simp add: sample_engine_def)

lemma sample_summary: "sequence_summary sample_engine sample_stored = (Inr [(''node-a'', 1)], sample_stored)"
  by (simp add: sequence_summary_def statement_simps sample_engine_def sample_stored_def insert_tables_def
      empty_tables_def fresh_def insert_row_def upsert_row_def sample_message_def column_int64_def column_def
      column_text_def emplace_def empty_refdb_def)

lemma sample_open: "open_store (ref_sqlite (store_db sample_stored)) ''chat.db'' 10485760 = Inr sample_stored"
  by (simp add: open_store_def initialize_schema_def andthen_def execute_def read_page_size_def prepare_def
      first_step_def column_int64_def column_def load_messages_def sample_stored_def insert_tables_def
      empty_tables_def fresh_def insert_row_def upsert_row_def sample_message_def message_row_def
      message_of_row_def column_text_def empty_refdb_def)

section \<open>Properties\<close>

text \<open>
  C4: \<open>insert_message\<close> is atomic whatever SQLite call fails in it: when it returns, the row
  and the sequence bound are both committed, or the message was a duplicate and nothing
  changed; when it throws, the tables are as before.  No transaction stays open.
\<close>

theorem insert_message_atomic:
  assumes "sqlite_engine E view" and "view db = (t, None)" and "insert_message E m db = (r, db')"
  shows "case r of
      Inr True \<Rightarrow> fresh m t \<and> view db' = (upsert_row (origin m) (sint (sequence m))
        (t\<lparr>t_messages := t_messages t @ [m]\<rparr>), None)
    | Inr False \<Rightarrow> \<not> fresh m t \<and> view db' = (t, None)
    | Inl _ \<Rightarrow> view db' = (t, None)"
  using sqlite_engine.insert_message_cases [OF assms(1,2), of m] assms(3)
  by (auto simp: insert_tables_def insert_row_def split: sum.splits bool.splits)

theorem insert_message_atomic_witness:
  "ref_view (snd (insert_message sample_engine (sample_message 1) (empty_refdb 5))) =
     (upsert_row ''node-a'' 1 (empty_tables\<lparr>t_messages := [sample_message 1]\<rparr>), None)"
proof -
  have f: "fresh (sample_message 1) empty_tables" by (simp add: fresh_def empty_tables_def)
  have "insert_message sample_engine (sample_message 1) (empty_refdb 5) =
      (Inr True, (empty_refdb 5)\<lparr>cur := insert_tables (sample_message 1) empty_tables, last_changes := 1\<rparr>)"
    unfolding sample_engine_def using f
    by (subst ref_insert_fresh) (simp_all add: empty_refdb_def empty_tables_def sample_message_def)
  with insert_message_atomic [OF sample_engine_ok _ this, of empty_tables] show ?thesis
    by (simp add: ref_view_def empty_refdb_def)
       (simp add: sample_message_def empty_tables_def)
qed

text \<open>
  C3: \<open>add\<close> refines its specification: seen through the tables, every outcome, exceptions
  included, is a step of \<open>add_spec\<close>.  In particular rows are dropped only when a statement of the
  first attempt answered \<open>SQLITE_FULL\<close>; any other failure changes nothing.  The tables keep their
  invariant, no transaction stays open, and the copy in memory stays a sub-list of the table.
\<close>

theorem add_refines_spec:
  assumes "sqlite_engine E view" and "store_weak view s" and "storable m" and "add E m s = (r, s')"
  shows "add_spec (answers_full E m (store_db s)) m (tables_of view s) r (tables_of view s') \<and> store_weak view s'"
  using assms by (rule sqlite_engine.add_refines)

lemma sample_not_full: "\<not> answers_full sample_engine (sample_message 1) (store_db sample_store)"
proof -
  have "fst (insert_message sample_engine (sample_message 1) (store_db sample_store)) = Inr True"
    unfolding sample_engine_def sample_store_def
    by (subst ref_insert_fresh) (simp_all add: empty_refdb_def empty_tables_def fresh_def sample_message_def)
  then show ?thesis
    unfolding sqlite_engine.insert_message_full [OF sample_engine_ok, symmetric] by simp
qed

theorem add_refines_spec_witness:
  "add_spec False (sample_message 1) (tables_of ref_view sample_store) (Inr True) (tables_of ref_view sample_stored)"
  using add_refines_spec [OF sample_engine_ok store_inv_weak [OF sample_store_inv] sample_storable sample_add]
    sample_not_full by simp

text \<open>
  C21: \<open>add\<close> keeps the store invariant (ids and (origin, sequence) pairs are unique, the bounds cover
  every row, the copy in memory equals the table in storage order) when it returns, and also when it
  throws for another reason than a full database.  Only when it throws after SQLite answered
  \<open>SQLITE_FULL\<close> the copy may be shorter than the table; it never holds a message the table lacks.
\<close>

theorem add_keeps_store_inv:
  assumes "sqlite_engine E view" and "store_inv view s" and "storable m" and "add E m s = (r, s')"
  shows "store_inv view s' \<or>
    (\<exists>e. r = Inl e) \<and> answers_full E m (store_db s) \<and> store_weak view s'"
proof (cases r)
  case (Inl e)
  then show ?thesis
    using assms sqlite_engine.add_refused_coherent [OF assms(1,2)]
      sqlite_engine.add_weak [OF assms(1) store_inv_weak [OF assms(2)] assms(3,4)] by blast
next
  case (Inr b)
  then show ?thesis using assms sqlite_engine.add_coherent [OF assms(1-3)] by blast
qed

theorem add_keeps_store_inv_witness:
  "store_inv ref_view (snd (add sample_engine (sample_message 1) sample_store))"
  using add_keeps_store_inv [OF sample_engine_ok sample_store_inv sample_storable sample_add]
  by (simp add: sample_add del: One_nat_def)

text \<open>
  The number \<open>next_sequence\<close> returns is greater than every sequence number stored for
  that origin, also after messages were pruned, provided its SELECT does not fail.
\<close>

theorem next_sequence_fresh:
  assumes "sqlite_engine E view" and "store_inv view s" and "next_sequence E k s = (Inr n, s')"
    and "fst (snd (run E sql_last_sequence [SText k] (store_db s))) = SQLITE_DONE"
  shows "(\<forall>m \<in> set (store_messages s). origin m = k \<longrightarrow> sequence m < n) \<and>
    int (unat n) = (case map_of (t_sequences (tables_of view s)) k of None \<Rightarrow> 1 | Some l \<Rightarrow> l + 1)"
proof -
  have v: "view (store_db s) = (tables_of view s, None)" "tables_ok (tables_of view s)"
    "store_messages s = t_messages (tables_of view s)"
    using assms(2) by (auto simp: store_inv_def tables_of_def prod_eq_iff)
  show ?thesis
    using sqlite_engine.next_sequence_unused [OF assms(1,3) v(1,2) assms(4)] v(3)
      sqlite_engine.next_sequence_value [OF assms(1,3) v(1,2) assms(4)] by auto
qed

theorem next_sequence_fresh_witness:
  "next_sequence sample_engine ''node-a'' sample_stored = (Inr 2, sample_stored) \<and>
   sequence (sample_message 1) < 2"
  using next_sequence_fresh [OF sample_engine_ok sample_stored_inv sample_next sample_last_done] sample_next
  by (simp add: sample_message_def sample_stored_def)

text \<open>
  C6: sequence numbers are never handed out twice: after any history of additions, some of which
  may have failed or pruned rows, the number \<open>next_sequence\<close> returns for an origin exceeds that of
  every message of that origin the history stored; the only exception is a SELECT that does not
  end with \<open>SQLITE_DONE\<close>, after which the number is 1.
\<close>

theorem sequences_never_reused:
  assumes "sqlite_engine E view" and "store_weak view s" and "list_all storable ms"
    and "add_all E ms s = (rs, s1)" and "(m, Inr True) \<in> set (zip ms rs)"
    and "next_sequence E (origin m) s1 = (Inr n, s2)"
  shows "sequence m < n \<or>
    n = 1 \<and> fst (snd (run E sql_last_sequence [SText (origin m)] (store_db s1))) \<noteq> SQLITE_DONE"
proof -
  have w: "store_weak view s1"
    using sqlite_engine.history_ok [OF assms(1-4)] by blast
  obtain l where l: "map_of (t_sequences (tables_of view s1)) (origin m) = Some l" "sint (sequence m) \<le> l"
      "1 \<le> sint (sequence m)"
    using sqlite_engine.history_bound [OF assms(1-5)] by blast
  have "view (store_db s1) = (tables_of view s1, None)" "tables_ok (tables_of view s1)"
    using w by (auto simp: store_weak_def tables_of_def prod_eq_iff)
  from sqlite_engine.next_sequence_above [OF assms(1,6) this _ l] show ?thesis
    using sqlite_engine.next_sequence_unread [OF assms(1,6) \<open>view (store_db s1) = _\<close> \<open>tables_ok _\<close> l] by blast
qed

theorem sequences_never_reused_witness:
  "add_all sample_engine [sample_message 1] sample_store = ([Inr True], sample_stored) \<and>
   sequence (sample_message 1) < 2"
proof -
  have h: "add_all sample_engine [sample_message 1] sample_store = ([Inr True], sample_stored)"
    using sample_add by simp
  have o': "origin (sample_message 1) = ''node-a''" by (simp add: sample_message_def)
  from sequences_never_reused [OF sample_engine_ok store_inv_weak [OF sample_store_inv] _ h _
      sample_next [folded o']] sample_storable h sample_last_done
  show ?thesis by simp
qed

text \<open>
  C22: reopening: when the constructor succeeds on a database file that meets the table invariant,
  the store holds exactly the rows of the file, in storage order, and their sequence bounds.
\<close>

theorem reopen_reads_back:
  assumes "sqlite_engine E view" and "open_store E path max_bytes = Inr s"
    and "open_v2 E (c_str path) = (SQLITE_OK, Some db)" and "tables_ok (fst (view db))"
  shows "store_inv view s \<and> tables_of view s = fst (view db) \<and> messages s = t_messages (fst (view db))"
  using sqlite_engine.open_store_reads [OF assms]
  by (auto simp: store_inv_def tables_of_def messages_def)

theorem reopen_reads_back_witness:
  "open_store (ref_sqlite (store_db sample_stored)) ''chat.db'' 10485760 = Inr sample_stored \<and>
   messages sample_stored = [sample_message 1]"
proof -
  have t: "tables_ok (fst (ref_view (store_db sample_stored)))"
    using sample_stored_inv by (simp add: store_inv_def)
  have "open_v2 (ref_sqlite (store_db sample_stored)) (c_str ''chat.db'') = (SQLITE_OK, Some (store_db sample_stored))"
    by (simp add: sample_stored_def empty_refdb_def)
  from reopen_reads_back [OF refengine.sqlite_engine_axioms sample_open this t] sample_open show ?thesis
    by (simp add: ref_view_def sample_stored_def insert_tables_def fresh_def empty_tables_def insert_row_def upsert_row_def)
qed

text \<open>
  C23: the sequence summary lists each origin once, with the highest sequence number stored for it,
  pruned messages included; a summary that could not be read to its end is never returned.
\<close>

theorem summary_is_bounds:
  assumes "sqlite_engine E view" and "store_weak view s" and "sequence_summary E s = (Inr r, s')"
  shows "distinct (map fst r) \<and>
    map_of r k = map_option word_of_int (map_of (t_sequences (tables_of view s)) k) \<and>
    (\<forall>m \<in> set (messages s). \<exists>n. map_of r (origin m) = Some n \<and> sequence m \<le> n)"
proof -
  have v: "view (store_db s) = (tables_of view s, None)" "tables_ok (tables_of view s)"
    using assms(2) by (auto simp: store_weak_def tables_of_def prod_eq_iff)
  have r: "distinct (map fst r) \<and> map_of r j = map_option word_of_int (map_of (t_sequences (tables_of view s)) j)" for j
    using sqlite_engine.summary_value [OF assms(1,3) v] .
  have "\<exists>n. map_of r (origin m) = Some n \<and> sequence m \<le> n" if m: "m \<in> set (messages s)" for m
  proof -
    have "m \<in> set (t_messages (tables_of view s))"
      using m assms(2) subseq_member [of "store_messages s"] by (simp add: store_weak_def messages_def)
    then obtain l where l: "map_of (t_sequences (tables_of view s)) (origin m) = Some l"
        "sint (sequence m) \<le> l" "1 \<le> sint (sequence m)"
      using v(2) by (auto simp: tables_ok_def list_all_iff)
    moreover have "l \<le> int64_max"
      using v(2) map_of_SomeD [OF l(1)] by (auto simp: tables_ok_def list_all_iff)
    ultimately have "sequence m \<le> word_of_int l"
      by (intro word_le_of_sint) auto
    then show ?thesis using r l(1) by simp
  qed
  then show ?thesis using r by blast
qed

theorem summary_is_bounds_witness:
  "sequence_summary sample_engine sample_stored = (Inr [(''node-a'', 1)], sample_stored) \<and>
   (\<exists>n. map_of [(''node-a'', 1 :: u64)] ''node-a'' = Some n \<and> sequence (sample_message 1) \<le> n)"
proof (rule conjI [OF sample_summary])
  have "sample_message 1 \<in> set (messages sample_stored)" by (simp add: messages_def sample_stored_def)
  moreover have "origin (sample_message 1) = ''node-a''" by (simp add: sample_message_def)
  ultimately show "\<exists>n. map_of [(''node-a'', 1 :: u64)] ''node-a'' = Some n \<and> sequence (sample_message 1) \<le> n"
    using summary_is_bounds [OF sample_engine_ok store_inv_weak [OF sample_stored_inv] sample_summary]
    by metis
qed

text \<open>
  The page limit written to SQLite never allows more bytes than asked for, once a page fits in
  the limit, and wastes less than one page; at least one page is always allowed.
\<close>

theorem max_pages_bound:
  assumes "0 < page_size" and "page_size \<le> int (unat max_bytes)"
  shows "int (unat (max_pages max_bytes page_size)) * page_size \<le> int (unat max_bytes) \<and>
    int (unat max_bytes) < (int (unat (max_pages max_bytes page_size)) + 1) * page_size"
proof -
  have u: "uint (word_of_int page_size :: u64) = page_size"
    using assms uint_lt2p [of max_bytes] by (simp add: uint_word_of_int_eq take_bit_int_eq_self)
  have d: "uint (max_bytes div word_of_int page_size) = uint max_bytes div page_size"
    by (simp add: uint_div u)
  have "1 \<le> uint max_bytes div page_size"
    using assms by (simp add: pos_imp_zdiv_pos_iff int_one_le_iff_zero_less)
  then have "uint (max_pages max_bytes page_size) = uint max_bytes div page_size"
    using d by (simp add: max_pages_def max_def word_le_def)
  then show ?thesis
    using div_bounds [OF assms(1), of "uint max_bytes"] by simp
qed

theorem max_pages_bound_witness:
  "max_pages max_database_bytes 4096 = 2560 \<and> unat (max_pages max_database_bytes 4096) * 4096 \<le> unat max_database_bytes"
  using max_pages_bound [of 4096 max_database_bytes]
  by (simp add: max_database_bytes_def max_pages_def)

definition busy_sqlite :: "refdb \<Rightarrow> refdb sqlite" where
  "busy_sqlite f = (ref_sqlite f)\<lparr>run := \<lambda>sql args db.
     if sql = sql_last_sequence then ([], SQLITE_BUSY, db) else ref_run sql args db\<rparr>"

interpretation busyengine: sqlite_engine "busy_sqlite f" ref_view
  by unfold_locales
     (auto simp: busy_sqlite_def ref_view_def ref_insert_def args_message_insert ref_run_final list_ex_iff
       take_everything dest: refengine.run_final refengine.select_view refengine.insert_no_rows
       split: option.splits if_splits)

text \<open>
  The premise on the SELECT is needed: \<open>next_sequence\<close> takes every result other than a row
  for an absent row, so on an engine that meets the contract and answers \<open>SQLITE_BUSY\<close> it
  hands out the number of a stored message again.
\<close>

theorem next_sequence_busy_reuses:
  "\<exists>(E :: refdb sqlite) view s m. sqlite_engine E view \<and> store_inv view s \<and> m \<in> set (messages s) \<and>
     fst (next_sequence E (origin m) s) = Inr (sequence m)"
proof (intro exI conjI)
  show "sqlite_engine (busy_sqlite (empty_refdb 5)) ref_view" by (rule busyengine.sqlite_engine_axioms)
  show "store_inv ref_view sample_stored" by (rule sample_stored_inv)
  show "sample_message 1 \<in> set (messages sample_stored)" by (simp add: messages_def sample_stored_def)
  show "fst (next_sequence (busy_sqlite (empty_refdb 5)) (origin (sample_message 1)) sample_stored) =
      Inr (sequence (sample_message 1))"
    by (simp add: next_sequence_def statement_simps busy_sqlite_def sample_message_def)
qed

section \<open>Independence of the order of delivery\<close>

lemma foldl_bump_same:
  assumes "set ms = set ms'"
  shows "foldl bump b ms = foldl bump b ms'"
  using assms by (simp add: fun_eq_iff foldl_bump numbers_of_def)

text \<open>
  C13: the order of delivery does not matter: two nodes whose databases know the same bounds and
  that are given the same messages, in any order and any number of times, by replication or by
  synchronization, give the same summary afterwards, whatever each of them had to prune.  It is
  assumed that no addition and no reading of the summary threw, and that the messages are
  consistent with each other and with the rows of each database: two of them with the same id, or
  with the same origin and number, are the same message.
\<close>

theorem delivery_order_irrelevant:
  assumes "sqlite_engine E view" and "store_weak view s" and "sqlite_engine E' view'" and "store_weak view' t"
    and "map_of (t_sequences (tables_of view s)) = map_of (t_sequences (tables_of view' t))"
    and "list_all storable ms" and "set ms = set ms'"
    and "consistent (set (t_messages (tables_of view s)) \<union> set ms)"
    and "consistent (set (t_messages (tables_of view' t)) \<union> set ms')"
    and "add_all E ms s = (rs, s1)" and "list_all (\<lambda>x. x \<in> range Inr) rs"
    and "add_all E' ms' t = (rs', t1)" and "list_all (\<lambda>x. x \<in> range Inr) rs'"
    and "sequence_summary E s1 = (Inr r, s2)" and "sequence_summary E' t1 = (Inr r', t2)"
  shows "set r = set r'"
proof -
  have st: "list_all storable ms'" using assms(6,7) by (simp add: list_all_iff)
  note h = sqlite_engine.history_ok [OF assms(1,2,6,10)] and h' = sqlite_engine.history_ok [OF assms(3,4) st assms(12)]
  have v: "view (store_db s1) = (tables_of view s1, None)" "tables_ok (tables_of view s1)"
    and v': "view' (store_db t1) = (tables_of view' t1, None)" "tables_ok (tables_of view' t1)"
    using h h' by (auto simp: store_weak_def tables_of_def prod_eq_iff)
  have "map_of (t_sequences (tables_of view s1)) = map_of (t_sequences (tables_of view' t1))"
    using sqlite_engine.history_bumps [OF assms(1,2,6,8,10,11)] sqlite_engine.history_bumps [OF assms(3,4) st assms(9,12,13)]
      foldl_bump_same [OF assms(7)] assms(5) by simp
  then have "map_of r = map_of r'"
    using sqlite_engine.summary_value [OF assms(1,14) v] sqlite_engine.summary_value [OF assms(3,15) v'] by (simp add: fun_eq_iff)
  then show ?thesis
    using sqlite_engine.summary_value [OF assms(1,14) v] sqlite_engine.summary_value [OF assms(3,15) v']
    by (simp add: map_of_inject_set)
qed

lemma two_deliveries:
  assumes "(a, b) \<in> {(1, 2), (2, 1)}"
  shows "\<exists>s. add_all sample_engine [sample_message a, sample_message b] sample_store = ([Inr True, Inr True], s) \<and>
    sequence_summary sample_engine s = (Inr [(''node-a'', 2)], s)"
proof -
  have add: "add_all sample_engine [sample_message a, sample_message b] sample_store =
      ([Inr True, Inr True], \<lparr>store_db = (empty_refdb 5)\<lparr>cur := insert_tables (sample_message b) (insert_tables (sample_message a) empty_tables),
         last_changes := 1\<rparr>, store_messages = [sample_message a, sample_message b]\<rparr>)"
    using assms unfolding sample_engine_def sample_store_def
    by (auto simp: ref_add_fresh empty_refdb_def empty_tables_def fresh_def sample_message_def insert_tables_def insert_row_def upsert_row_def)
  show ?thesis
    unfolding add using assms
    by (auto simp: sequence_summary_def statement_simps sample_engine_def insert_tables_def
        empty_tables_def fresh_def insert_row_def upsert_row_def sample_message_def column_int64_def column_def
        column_text_def emplace_def empty_refdb_def)
qed

theorem delivery_order_irrelevant_witness:
  "\<exists>s t r. add_all sample_engine [sample_message 1, sample_message 2] sample_store = ([Inr True, Inr True], s) \<and>
     add_all sample_engine [sample_message 2, sample_message 1] sample_store = ([Inr True, Inr True], t) \<and>
     sequence_summary sample_engine s = (Inr r, s) \<and> fst (sequence_summary sample_engine t) = Inr [(''node-a'', 2)] \<and>
     set r = {(''node-a'', 2)}"
proof -
  obtain s t where s: "add_all sample_engine [sample_message 1, sample_message 2] sample_store = ([Inr True, Inr True], s)"
      "sequence_summary sample_engine s = (Inr [(''node-a'', 2)], s)"
    and t: "add_all sample_engine [sample_message 2, sample_message 1] sample_store = ([Inr True, Inr True], t)"
      "sequence_summary sample_engine t = (Inr [(''node-a'', 2)], t)"
    using two_deliveries by (metis insertCI)
  have st: "list_all storable [sample_message 1, sample_message 2]" by (simp add: storable_def sample_message_def)
  have c: "consistent (set (t_messages (tables_of ref_view sample_store)) \<union> set ms)"
    if "set ms = {sample_message 1, sample_message 2}" for ms
    using that by (auto simp: consistent_def tables_of_def sample_store_def ref_view_def empty_refdb_def empty_tables_def
        sample_message_def)
  note w = store_inv_weak [OF sample_store_inv]
  have "set [(''node-a'', 2 :: u64)] = set [(''node-a'', 2)]"
    by (rule delivery_order_irrelevant [OF sample_engine_ok w sample_engine_ok w refl st _ c c s(1) _ t(1) _ s(2) t(2)]) auto
  then show ?thesis using s t by auto
qed

section \<open>A full database\<close>

lemma ref_insert_full:
  assumes "saved db = None" and "fresh m (cur db)" and "capacity db \<le> length (t_messages (cur db))"
    and "unat (sequence m) < 2 ^ 63"
  shows "insert_message (ref_sqlite f) m db = (Inl DatabaseFull, db)"
  using assms
  by (simp add: insert_message_def andthen_def execute_def insert_body_def prepare_def andthen_bind_texts
      bind_text_def ref_insert_def args_message_insert first_step_def)

lemma ref_load:
  assumes "saved db = None" and "tables_ok (cur db)"
  shows "load_messages (ref_sqlite f) \<lparr>store_db = db, store_messages = ms\<rparr> =
    (Inr (), \<lparr>store_db = db, store_messages = t_messages (cur db)\<rparr>)"
proof -
  have "list_all (\<lambda>m. 1 \<le> sint (sequence m)) (t_messages (cur db))" using assms(2) by (simp add: tables_ok_def)
  from refengine.load_rows_ok [OF this, of f db SQLITE_DONE "[]"] show ?thesis
    by (simp add: load_messages_def prepare_def)
qed

lemma ref_add_full:
  assumes "saved db = None" and "tables_ok (cur db)" and "fresh m (cur db)" and "0 < capacity db"
    and "length (t_messages (cur db)) = capacity db" and "unat (sequence m) < 2 ^ 63"
  shows "add (ref_sqlite f) m \<lparr>store_db = db, store_messages = ms\<rparr> =
    (Inr True, \<lparr>store_db = db\<lparr>cur := insert_tables m (prune_rows (cur db)), last_changes := 1\<rparr>,
       store_messages = t_messages (prune_rows (cur db)) @ [m]\<rparr>)"
proof -
  let ?db = "db\<lparr>cur := prune_rows (cur db)\<rparr>"
  have p: "saved ?db = None" "fresh m (cur ?db)" "tables_ok (cur ?db)" "length (t_messages (cur ?db)) < capacity ?db"
    using assms fresh_prune tables_ok_prune by (auto simp: prune_rows_def)
  have "capacity db \<le> length (t_messages (cur db))" using assms(5) by simp
  from ref_insert_full [OF assms(1,3) this assms(6), of f] ref_load [OF p(1,3), of f] ref_insert_fresh [OF p(1,2,4) assms(6), of f]
  show ?thesis
    by (simp add: add_def insert_and_remember_def prune_oldest_messages_def execute_def andthen_def)
qed

text \<open>
  C14: the log keeps the newest messages: after any history of additions the table holds, in this
  order, the rows it had and the messages the history reported as new, less some of the oldest of
  them, at most a hundred for every addition whose first attempt was answered with \<open>SQLITE_FULL\<close>; as
  long as SQLite does not report the database full no row is ever lost.
\<close>

theorem oldest_dropped_when_full:
  assumes "sqlite_engine E view" and "store_weak view s" and "list_all storable ms" and "add_all E ms s = (rs, s')"
  shows "\<exists>k \<le> 100 * refusals (\<lambda>m s. answers_full E m (store_db s)) (add E) ms s.
    t_messages (tables_of view s') = drop k (t_messages (tables_of view s) @ reported_new ms rs)"
  using assms by (rule sqlite_engine.history_retains)

text \<open>On a database with room for one row the second message drops the first.\<close>

definition small_store :: "refdb MessageStore" where
  "small_store = \<lparr>store_db = empty_refdb 1, store_messages = []\<rparr>"

lemma small_history:
  "\<exists>s'. add_all (ref_sqlite f) [sample_message 1, sample_message 2] small_store = ([Inr True, Inr True], s') \<and>
     t_messages (tables_of ref_view s') = [sample_message 2]"
proof -
  let ?db = "(empty_refdb 1)\<lparr>cur := insert_tables (sample_message 1) empty_tables, last_changes := 1\<rparr>"
  have m: "unat (sequence (sample_message 1)) < 2 ^ 63" "unat (sequence (sample_message 2)) < 2 ^ 63"
      "storable (sample_message 1)" "fresh (sample_message 2) (insert_tables (sample_message 1) empty_tables)"
      "fresh (sample_message 1) empty_tables"
    by (auto simp: sample_message_def storable_def fresh_def empty_tables_def insert_tables_def insert_row_def upsert_row_def)
  have one: "add (ref_sqlite f) (sample_message 1) small_store = (Inr True, \<lparr>store_db = ?db, store_messages = [sample_message 1]\<rparr>)"
    unfolding small_store_def using m
    by (subst ref_add_fresh) (simp_all add: empty_refdb_def, simp_all add: empty_tables_def)
  have "length (t_messages (insert_tables (sample_message 1) empty_tables)) = 1"
    using m(5) by (simp add: insert_tables_def insert_row_def upsert_row_def empty_tables_def)
  then have two: "add (ref_sqlite f) (sample_message 2) \<lparr>store_db = ?db, store_messages = [sample_message 1]\<rparr> =
      (Inr True, \<lparr>store_db = ?db\<lparr>cur := insert_tables (sample_message 2) (prune_rows (cur ?db)), last_changes := 1\<rparr>,
         store_messages = t_messages (prune_rows (cur ?db)) @ [sample_message 2]\<rparr>)"
    using m tables_ok_insert [OF tables_ok_empty m(3,1)] by (intro ref_add_full) (simp_all add: empty_refdb_def)
  have "t_messages (insert_tables (sample_message 2) (prune_rows (insert_tables (sample_message 1) empty_tables))) = [sample_message 2]"
    by (simp add: insert_tables_def insert_row_def upsert_row_def empty_tables_def prune_rows_def fresh_def)
  then show ?thesis using one two by (simp add: tables_of_def ref_view_def)
qed

theorem oldest_dropped_when_full_witness:
  "\<exists>k \<le> 100 * refusals (\<lambda>m s. answers_full (ref_sqlite (empty_refdb 1)) m (store_db s)) (add (ref_sqlite (empty_refdb 1)))
       [sample_message 1, sample_message 2] small_store.
     [sample_message 2] = drop k [sample_message 1, sample_message 2]"
proof -
  obtain s' where s': "add_all (ref_sqlite (empty_refdb 1)) [sample_message 1, sample_message 2] small_store = ([Inr True, Inr True], s')"
      "t_messages (tables_of ref_view s') = [sample_message 2]"
    using small_history by blast
  have w: "store_weak ref_view small_store"
    using tables_ok_empty by (simp add: small_store_def store_weak_def tables_of_def ref_view_def empty_refdb_def)
  have "list_all storable [sample_message 1, sample_message 2]" by (simp add: storable_def sample_message_def)
  note h = oldest_dropped_when_full [OF refengine.sqlite_engine_axioms w this s'(1)]
  have "t_messages (tables_of ref_view small_store) = []"
    by (simp add: tables_of_def small_store_def ref_view_def empty_refdb_def empty_tables_def)
  then have "t_messages (tables_of ref_view small_store) @ reported_new [sample_message 1, sample_message 2] [Inr True, Inr True] =
      [sample_message 1, sample_message 2]" by simp
  with h s'(2) show ?thesis by (simp only:)
qed

end
