(* ===== verification/Les_Json.thy ===== *)
theory Les_Json
  imports Les_Prelude
begin

text \<open>
  \<open>json.hpp\<close> and \<open>json.cpp\<close>: the thin layer over json-c.  json-c itself is a parameter: a
  record of the functions the sources call, over a type \<open>'j\<close> of \<open>json_object*\<close> values (the
  null pointer included, which is how json-c represents JSON \<open>null\<close>).  Adding a member or an
  element returns the changed container.  The locale \<open>json_library\<close> states what the sources
  rely on of the documented behaviour of json-c; it is interpreted below on a concrete value
  type, which shows that the contract can be met and serves the examples.
\<close>

datatype json_type =
    json_type_null | json_type_boolean | json_type_double | json_type_int
  | json_type_object | json_type_array | json_type_string

record 'j jsonc =
  is_nullptr :: "'j \<Rightarrow> bool"
  object_is_type :: "'j \<Rightarrow> json_type \<Rightarrow> bool"
  object_get_ex :: "'j \<Rightarrow> bytes \<Rightarrow> 'j option"
  get_string :: "'j \<Rightarrow> bytes option"
  get_string_len :: "'j \<Rightarrow> int"
  get_int :: "'j \<Rightarrow> int"
  get_int64 :: "'j \<Rightarrow> int"
  get_boolean :: "'j \<Rightarrow> bool"
  array_length :: "'j \<Rightarrow> nat"
  array_get_idx :: "'j \<Rightarrow> nat \<Rightarrow> 'j"
  new_object :: "'j option"
  new_array :: "'j option"
  new_string :: "bytes \<Rightarrow> 'j"
  new_string_len :: "bytes \<Rightarrow> 'j"
  new_int :: "int \<Rightarrow> 'j"
  new_int64 :: "int \<Rightarrow> 'j"
  new_boolean :: "bool \<Rightarrow> 'j"
  object_add :: "'j \<Rightarrow> bytes \<Rightarrow> 'j \<Rightarrow> 'j"
  array_add :: "'j \<Rightarrow> 'j \<Rightarrow> 'j"
  to_json_string :: "'j \<Rightarrow> bytes option"
  tokener_parse :: "(bytes \<Rightarrow> 'j \<times> bool \<times> nat) option"

section \<open>The wrapper\<close>

record 'j JsonParse =
  parsed_object :: 'j
  parsed_ok :: bool
  parse_end :: nat

definition make_json_object :: "'j jsonc \<Rightarrow> 'j result" where
  "make_json_object J =
     (case new_object J of
        None \<Rightarrow> Inl (RuntimeError ''Unable to create JSON object'')
      | Some object \<Rightarrow> Inr object)"

definition make_json_array :: "'j jsonc \<Rightarrow> 'j result" where
  "make_json_array J =
     (case new_array J of
        None \<Rightarrow> Inl (RuntimeError ''Unable to create JSON array'')
      | Some object \<Rightarrow> Inr object)"

definition serialize_json :: "'j jsonc \<Rightarrow> 'j \<Rightarrow> bytes result" where
  "serialize_json J object =
     (case to_json_string J object of
        None \<Rightarrow> Inl (RuntimeError ''Unable to serialize JSON'')
      | Some serialized \<Rightarrow> Inr (c_str serialized))"

definition parse_json :: "'j jsonc \<Rightarrow> bytes \<Rightarrow> 'j JsonParse result" where
  "parse_json J text =
     (case tokener_parse J of
        None \<Rightarrow> Inl (RuntimeError ''Unable to create JSON parser'')
      | Some tokener \<Rightarrow>
          (case tokener text of (object, ok, consumed) \<Rightarrow>
             Inr \<lparr>parsed_object = object, parsed_ok = ok, parse_end = consumed\<rparr>))"

definition json_is_object :: "'j jsonc \<Rightarrow> 'j \<Rightarrow> bool" where
  "json_is_object J object \<longleftrightarrow> \<not> is_nullptr J object \<and> object_is_type J object json_type_object"

definition json_get_string :: "'j jsonc \<Rightarrow> 'j \<Rightarrow> bytes \<Rightarrow> bytes option" where
  "json_get_string J object name =
     (case object_get_ex J object name of
        None \<Rightarrow> None
      | Some member \<Rightarrow>
          if \<not> object_is_type J member json_type_string then None
          else
            (case get_string J member of
               None \<Rightarrow> None
             | Some text \<Rightarrow>
                 let len = get_string_len J member in
                 if len < 0 then None else Some (take (nat len) text)))"

text \<open>An object under construction: the members added in order to a fresh object.\<close>

definition add_members :: "'j jsonc \<Rightarrow> (bytes \<times> 'j) list \<Rightarrow> 'j \<Rightarrow> 'j" where
  "add_members J ms o0 = fold (\<lambda>(k, v) obj. object_add J obj k v) ms o0"

definition build_object :: "'j jsonc \<Rightarrow> (bytes \<times> 'j) list \<Rightarrow> 'j result" where
  "build_object J ms = result_bind (make_json_object J) (\<lambda>root. Inr (add_members J ms root))"

fun map_result :: "('a \<Rightarrow> 'b result) \<Rightarrow> 'a list \<Rightarrow> 'b list result" where
  "map_result f [] = Inr []"
| "map_result f (x # xs) =
     result_bind (f x) (\<lambda>y. result_bind (map_result f xs) (\<lambda>ys. Inr (y # ys)))"

definition build_array :: "'j jsonc \<Rightarrow> 'j list \<Rightarrow> 'j result" where
  "build_array J xs = result_bind (make_json_array J) (\<lambda>root. Inr (fold (\<lambda>v a. array_add J a v) xs root))"

text \<open>
  The text that json-c prints for a value is read back as that value, to its last byte: what a
  message exchange between two nodes relies on, stated for the values it sends.
\<close>

definition reads_back :: "'j jsonc \<Rightarrow> 'j \<Rightarrow> bool" where
  "reads_back J v \<longleftrightarrow>
     (\<forall>s. serialize_json J v = Inr s \<longrightarrow>
        parse_json J s = Inr \<lparr>parsed_object = v, parsed_ok = True, parse_end = length s\<rparr>)"

section \<open>What the sources rely on of json-c\<close>

definition int32_range :: "int \<Rightarrow> bool" where
  "int32_range n \<longleftrightarrow> - 2147483648 \<le> n \<and> n \<le> 2147483647"

text \<open>
  The laws \<open>new_object_ok\<close>, \<open>new_array_ok\<close> and \<open>serialize_ok\<close> say that json-c does not run out of memory;
  the wrappers above have the branches in which it does, which throw.  A theorem that assumes
  \<open>json_library\<close> is about runs in which memory suffices; \<open>handle_request_answers_once\<close> and the theorems
  on the store and on the release of connections do without this assumption.
\<close>

locale json_library =
  fixes J :: "'j jsonc"
  assumes type_unique: "object_is_type J v t \<Longrightarrow> object_is_type J v t' \<Longrightarrow> t = t'"
    and object_not_null: "object_is_type J v json_type_object \<Longrightarrow> \<not> is_nullptr J v"
    and string_not_null: "object_is_type J v json_type_string \<Longrightarrow> \<not> is_nullptr J v"
    and string_bytes: "object_is_type J v json_type_string \<Longrightarrow>
          \<exists>s. get_string J v = Some s \<and> get_string_len J v = int (length s)"
    and new_object_ok: "\<exists>v. new_object J = Some v \<and> object_is_type J v json_type_object \<and>
          (\<forall>k. object_get_ex J v k = None)"
    and add_is_object: "object_is_type J v json_type_object \<Longrightarrow>
          object_is_type J (object_add J v k x) json_type_object"
    and get_add: "object_is_type J v json_type_object \<Longrightarrow>
          object_get_ex J (object_add J v k x) k' = (if k' = k then Some x else object_get_ex J v k')"
    and new_array_ok: "\<exists>v. new_array J = Some v \<and> object_is_type J v json_type_array \<and>
          array_length J v = 0"
    and add_is_array: "object_is_type J v json_type_array \<Longrightarrow>
          object_is_type J (array_add J v x) json_type_array"
    and length_add: "object_is_type J v json_type_array \<Longrightarrow>
          array_length J (array_add J v x) = array_length J v + 1"
    and idx_add: "object_is_type J v json_type_array \<Longrightarrow> i \<le> array_length J v \<Longrightarrow>
          array_get_idx J (array_add J v x) i = (if i = array_length J v then x else array_get_idx J v i)"
    and new_int_ok: "int32_range n \<Longrightarrow> object_is_type J (new_int J n) json_type_int \<and>
          get_int J (new_int J n) = n \<and> get_int64 J (new_int J n) = n"
    and new_int64_ok: "is_int64 n \<Longrightarrow> object_is_type J (new_int64 J n) json_type_int \<and>
          get_int64 J (new_int64 J n) = n"
    and get_int64_range: "is_int64 (get_int64 J v)"
    and new_string_ok: "no_nul s \<Longrightarrow> length s \<le> 2147483647 \<Longrightarrow>
          object_is_type J (new_string J s) json_type_string \<and>
          get_string J (new_string J s) = Some s \<and> get_string_len J (new_string J s) = int (length s)"
    and new_string_len_ok: "length s \<le> 2147483647 \<Longrightarrow>
          object_is_type J (new_string_len J s) json_type_string \<and>
          get_string J (new_string_len J s) = Some s \<and> get_string_len J (new_string_len J s) = int (length s)"
    and new_boolean_ok: "object_is_type J (new_boolean J b) json_type_boolean \<and>
          get_boolean J (new_boolean J b) = b"
    and serialize_ok: "to_json_string J v \<noteq> None"
begin

lemma add_members_is_object:
  "object_is_type J v json_type_object \<Longrightarrow> object_is_type J (add_members J ms v) json_type_object"
  by (induction ms arbitrary: v) (auto simp: add_members_def add_is_object)

lemma get_add_members:
  "object_is_type J v json_type_object \<Longrightarrow>
   object_get_ex J (add_members J ms v) k =
     (case map_of (rev ms) k of None \<Rightarrow> object_get_ex J v k | Some x \<Rightarrow> Some x)"
proof (induction ms rule: rev_induct)
  case Nil
  then show ?case by (simp add: add_members_def)
next
  case (snoc m ms)
  have "object_is_type J (add_members J ms v) json_type_object"
    using snoc.prems by (rule add_members_is_object)
  with snoc show ?case
    by (cases m) (auto simp: add_members_def get_add)
qed

lemma build_object_ok:
  "\<exists>v. build_object J ms = Inr v \<and> object_is_type J v json_type_object \<and> json_is_object J v \<and>
     (\<forall>k. object_get_ex J v k = map_of (rev ms) k)"
proof -
  obtain v0 where v0: "new_object J = Some v0" "object_is_type J v0 json_type_object"
      "\<And>k. object_get_ex J v0 k = None"
    using new_object_ok by blast
  have o: "object_is_type J (add_members J ms v0) json_type_object"
    using v0(2) by (rule add_members_is_object)
  show ?thesis
    using v0 o get_add_members [OF v0(2)]
    by (intro exI [of _ "add_members J ms v0"])
       (auto simp: build_object_def make_json_object_def json_is_object_def object_not_null
         split: option.splits)
qed

lemma array_fold:
  assumes "object_is_type J v json_type_array"
  shows "object_is_type J (fold (\<lambda>x a. array_add J a x) xs v) json_type_array \<and>
    array_length J (fold (\<lambda>x a. array_add J a x) xs v) = array_length J v + length xs \<and>
    (\<forall>i < length xs. array_get_idx J (fold (\<lambda>x a. array_add J a x) xs v) (array_length J v + i) = xs ! i)"
proof (induction xs rule: rev_induct)
  case Nil
  then show ?case using assms by simp
next
  case (snoc x xs)
  then show ?case
    by (auto simp: add_is_array length_add idx_add nth_append less_Suc_eq)
qed

lemma build_array_ok:
  "\<exists>v. build_array J xs = Inr v \<and> object_is_type J v json_type_array \<and>
     array_length J v = length xs \<and> (\<forall>i < length xs. array_get_idx J v i = xs ! i)"
proof -
  obtain v0 where v0: "new_array J = Some v0" "object_is_type J v0 json_type_array" "array_length J v0 = 0"
    using new_array_ok by blast
  show ?thesis
    using v0(1,3) array_fold [OF v0(2), of xs]
    by (intro exI [of _ "fold (\<lambda>x a. array_add J a x) xs v0"])
       (simp add: build_array_def make_json_array_def)
qed

lemma get_string_member:
  "object_get_ex J v k = Some (new_string_len J s) \<Longrightarrow> length s \<le> 2147483647 \<Longrightarrow>
   json_get_string J v k = Some s"
  using new_string_len_ok by (simp add: json_get_string_def)

lemma get_cstring_member:
  "object_get_ex J v k = Some (new_string J (c_str s)) \<Longrightarrow> length s \<le> 2147483647 \<Longrightarrow>
   json_get_string J v k = Some (c_str s)"
  using new_string_ok [of "c_str s"] length_c_str [of s] by (simp add: json_get_string_def)

lemma serialize_total: "\<exists>txt. serialize_json J v = Inr txt"
  using serialize_ok [of v] by (auto simp: serialize_json_def)

end

section \<open>A concrete value type that meets the contract\<close>

datatype json =
    JNull | JBool bool | JDouble | JInt int | JString bytes | JArray "json list"
  | JObject "(bytes \<times> json) list"

fun json_type_of :: "json \<Rightarrow> json_type" where
  "json_type_of JNull = json_type_null"
| "json_type_of (JBool b) = json_type_boolean"
| "json_type_of JDouble = json_type_double"
| "json_type_of (JInt n) = json_type_int"
| "json_type_of (JString s) = json_type_string"
| "json_type_of (JArray xs) = json_type_array"
| "json_type_of (JObject ms) = json_type_object"

fun json_member :: "json \<Rightarrow> bytes \<Rightarrow> json option" where
  "json_member (JObject ms) k = map_of ms k"
| "json_member _ k = None"

fun json_string :: "json \<Rightarrow> bytes option" where
  "json_string (JString s) = Some s"
| "json_string _ = None"

fun json_int :: "json \<Rightarrow> int" where
  "json_int (JInt n) = n"
| "json_int _ = 0"

fun json_bool :: "json \<Rightarrow> bool" where
  "json_bool (JBool b) = b"
| "json_bool _ = False"

fun json_elements :: "json \<Rightarrow> json list" where
  "json_elements (JArray xs) = xs"
| "json_elements _ = []"

fun json_object_add :: "json \<Rightarrow> bytes \<Rightarrow> json \<Rightarrow> json" where
  "json_object_add (JObject ms) k v = JObject (insert_or_assign k v ms)"
| "json_object_add v _ _ = v"

fun json_array_add :: "json \<Rightarrow> json \<Rightarrow> json" where
  "json_array_add (JArray xs) v = JArray (xs @ [v])"
| "json_array_add a _ = a"

definition clamp :: "int \<Rightarrow> int \<Rightarrow> int \<Rightarrow> int" where
  "clamp lo hi n = max lo (min hi n)"

text \<open>The text functions are arguments: a concrete pair is in \<open>Les_Json_Text\<close>.\<close>

definition json_values :: "(json \<Rightarrow> bytes) \<Rightarrow> (bytes \<Rightarrow> json \<times> bool \<times> nat) \<Rightarrow> json jsonc" where
  "json_values print tok = \<lparr>
     is_nullptr = (\<lambda>v. v = JNull),
     object_is_type = (\<lambda>v t. json_type_of v = t),
     object_get_ex = json_member,
     get_string = json_string,
     get_string_len = (\<lambda>v. case json_string v of None \<Rightarrow> 0 | Some s \<Rightarrow> int (length s)),
     get_int = (\<lambda>v. clamp (- 2147483648) 2147483647 (json_int v)),
     get_int64 = (\<lambda>v. clamp int64_min int64_max (json_int v)),
     get_boolean = json_bool,
     array_length = (\<lambda>v. length (json_elements v)),
     array_get_idx = (\<lambda>v i. if i < length (json_elements v) then json_elements v ! i else JNull),
     new_object = Some (JObject []),
     new_array = Some (JArray []),
     new_string = JString,
     new_string_len = JString,
     new_int = JInt,
     new_int64 = JInt,
     new_boolean = JBool,
     object_add = json_object_add,
     array_add = json_array_add,
     to_json_string = (\<lambda>v. Some (print v)),
     tokener_parse = Some tok\<rparr>"

lemma json_type_of_object: "json_type_of v = json_type_object \<longleftrightarrow> (\<exists>ms. v = JObject ms)"
  by (cases v) auto

lemma json_type_of_string: "json_type_of v = json_type_string \<longleftrightarrow> (\<exists>s. v = JString s)"
  by (cases v) auto

lemma json_type_of_array: "json_type_of v = json_type_array \<longleftrightarrow> (\<exists>xs. v = JArray xs)"
  by (cases v) auto

interpretation jvals: json_library "json_values print tok"
  by unfold_locales
     (auto simp: json_values_def json_type_of_object json_type_of_array json_type_of_string map_of_insert_or_assign
       clamp_def int32_range_def is_int64_def int64_min_def int64_max_def nth_append)

end
