(* ===== verification/Les_Utf8.thy ===== *)
theory Les_Utf8
  imports Les_Prelude
begin

text \<open>
  \<open>utf8.hpp\<close>: the validator that guards every message body.  \<open>utf8_loop\<close> is the outer
  \<open>while\<close> over the byte index, \<open>utf8_lead\<close> the classification of the first byte,
  \<open>utf8_cont\<close> the inner loop over the continuation bytes.  The reference is \<open>utf8_encode\<close>,
  the encoding of one Unicode scalar value.
\<close>

unbundle bit_operations_syntax

section \<open>The validator\<close>

definition uchar :: "char \<Rightarrow> 32 word" where
  "uchar c = of_char c"

definition utf8_lead :: "32 word \<Rightarrow> (nat \<times> 32 word) option" where
  "utf8_lead first =
     (if first \<le> 0x7F then Some (0, first)
      else if first \<ge> 0xC2 \<and> first \<le> 0xDF then Some (1, first AND 0x1F)
      else if first \<ge> 0xE0 \<and> first \<le> 0xEF then Some (2, first AND 0x0F)
      else if first \<ge> 0xF0 \<and> first \<le> 0xF4 then Some (3, first AND 0x07)
      else None)"

function utf8_cont :: "bytes \<Rightarrow> nat \<Rightarrow> nat \<Rightarrow> nat \<Rightarrow> 32 word \<Rightarrow> 32 word option" where
  "utf8_cont text index continuation_count offset code_point =
     (if offset \<le> continuation_count then
        let nxt = uchar (text ! (index + offset)) in
        if nxt AND 0xC0 \<noteq> 0x80 then None
        else utf8_cont text index continuation_count (Suc offset)
               ((push_bit 6 code_point) OR (nxt AND 0x3F))
      else Some code_point)"
  by pat_completeness auto
termination
  by (relation "measure (\<lambda>(text, index, continuation_count, offset, code_point). Suc continuation_count - offset)") auto

definition utf8_rejected :: "nat \<Rightarrow> 32 word \<Rightarrow> bool" where
  "utf8_rejected continuation_count code_point \<longleftrightarrow>
     (continuation_count = 2 \<and> code_point < 0x800) \<or>
     (continuation_count = 3 \<and> code_point < 0x10000) \<or>
     code_point > 0x10FFFF \<or>
     (code_point \<ge> 0xD800 \<and> code_point \<le> 0xDFFF)"

function utf8_loop :: "bytes \<Rightarrow> nat \<Rightarrow> bool" where
  "utf8_loop text index =
     (if index < length text then
        (case utf8_lead (uchar (text ! index)) of
           None \<Rightarrow> False
         | Some (continuation_count, lead) \<Rightarrow>
             if index + continuation_count \<ge> length text then False
             else
               (case utf8_cont text index continuation_count 1 lead of
                  None \<Rightarrow> False
                | Some code_point \<Rightarrow>
                    if utf8_rejected continuation_count code_point then False
                    else utf8_loop text (index + (continuation_count + 1))))
      else True)"
  by pat_completeness auto
termination
  by (relation "measure (\<lambda>(text, index). length text - index)") auto

declare utf8_cont.simps [simp del] utf8_loop.simps [simp del]

definition is_valid_utf8 :: "bytes \<Rightarrow> bool" where
  "is_valid_utf8 text = utf8_loop text 0"

section \<open>Reference: the encoding of Unicode scalar values\<close>

definition scalar_value :: "nat \<Rightarrow> bool" where
  "scalar_value cp \<longleftrightarrow> cp < 0xD800 \<or> (0xE000 \<le> cp \<and> cp \<le> 0x10FFFF)"

definition utf8_encode :: "nat \<Rightarrow> bytes" where
  "utf8_encode cp =
     (if cp < 0x80 then [char_of cp]
      else if cp < 0x800 then [char_of (0xC0 + cp div 64), char_of (0x80 + cp mod 64)]
      else if cp < 0x10000 then
        [char_of (0xE0 + cp div 4096), char_of (0x80 + cp div 64 mod 64), char_of (0x80 + cp mod 64)]
      else
        [char_of (0xF0 + cp div 262144), char_of (0x80 + cp div 4096 mod 64),
         char_of (0x80 + cp div 64 mod 64), char_of (0x80 + cp mod 64)])"

section \<open>Bytes as numbers\<close>

definition byte_val :: "char \<Rightarrow> nat" where
  "byte_val c = of_char c"

definition cont_byte :: "char \<Rightarrow> bool" where
  "cont_byte c \<longleftrightarrow> 128 \<le> byte_val c \<and> byte_val c < 192"

lemma byte_val_less [simp]: "byte_val c < 256"
  by (simp add: byte_val_def)

lemma char_of_byte_val [simp]: "char_of (byte_val c) = c"
  by (simp add: byte_val_def)

lemma byte_val_char_of: "n < 256 \<Longrightarrow> byte_val (char_of n) = n"
  by (simp add: byte_val_def)

lemma uchar_of_nat: "uchar c = of_nat (byte_val c)"
  by (simp only: uchar_def byte_val_def of_nat_of_char)

lemma byte_bound: "256 < (2 :: nat) ^ 32"
  by simp

lemma small_word_le:
  "m < 2 ^ 32 \<Longrightarrow> n < 2 ^ 32 \<Longrightarrow> (of_nat m :: 32 word) \<le> of_nat n \<longleftrightarrow> m \<le> n"
  by (simp add: word_le_nat_alt unat_of_nat)

lemma small_word_eq:
  "m < 2 ^ 32 \<Longrightarrow> n < 2 ^ 32 \<Longrightarrow> (of_nat m :: 32 word) = of_nat n \<longleftrightarrow> m = n"
  by (simp add: word_unat_eq_iff unat_of_nat)

lemma nat_and_masks:
  fixes n :: nat
  shows "n AND 0x3F = n mod 64" "n AND 0x1F = n mod 32" "n AND 0x0F = n mod 16"
    "n AND 0x07 = n mod 8" "n AND 0x03 = n mod 4"
proof -
  have "n AND mask 6 = n mod 2 ^ 6" "n AND mask 5 = n mod 2 ^ 5"
    "n AND mask 4 = n mod 2 ^ 4" "n AND mask 3 = n mod 2 ^ 3"
    "n AND mask 2 = n mod 2 ^ 2"
    by (simp_all only: take_bit_eq_mask [symmetric] take_bit_eq_mod)
  then show "n AND 0x3F = n mod 64" "n AND 0x1F = n mod 32" "n AND 0x0F = n mod 16"
    "n AND 0x07 = n mod 8" "n AND 0x03 = n mod 4"
    by (simp_all add: mask_eq_exp_minus_1)
qed

lemma nat_and_C0:
  fixes n :: nat
  assumes "n < 256"
  shows "n AND 0xC0 = 64 * (n div 64)"
proof -
  have "n AND 0xC0 = push_bit 6 (drop_bit 6 (n AND 0xC0)) + take_bit 6 (n AND 0xC0)"
    by (simp only: bits_ident)
  moreover have "take_bit 6 (n AND 0xC0) = 0"
    by (subst take_bit_and) (simp add: take_bit_eq_mod)
  moreover have "drop_bit 6 (n AND 0xC0) = n div 64 mod 4"
    by (subst drop_bit_and) (simp add: drop_bit_eq_div nat_and_masks)
  ultimately have "n AND 0xC0 = push_bit 6 (n div 64 mod 4)"
    by (simp only: add_0_right)
  then show ?thesis
    using assms by (simp add: push_bit_eq_mult)
qed

lemma mod_offset:
  fixes b :: nat
  assumes "m * k \<le> b" and "b < m * k + k"
  shows "b mod k = b - m * k"
proof -
  define r where "r = b - m * k"
  have "b = r + m * k" and "r < k"
    using assms by (auto simp: r_def)
  then show ?thesis by simp
qed

lemma uchar_and: "uchar c AND of_nat k = of_nat (byte_val c AND k)"
  by (simp add: uchar_of_nat of_nat_and_eq)

lemma uchar_cont_test: "uchar c AND 0xC0 = 0x80 \<longleftrightarrow> cont_byte c"
proof -
  have "uchar c AND of_nat 0xC0 = of_nat (64 * (byte_val c div 64))"
    unfolding uchar_and using nat_and_C0 [OF byte_val_less, of c] by simp
  moreover have "of_nat (64 * (byte_val c div 64)) = (of_nat 0x80 :: 32 word) \<longleftrightarrow>
      64 * (byte_val c div 64) = 0x80"
    using byte_val_less [of c] by (intro small_word_eq) (simp_all del: byte_val_less)
  ultimately show ?thesis
    by (auto simp: cont_byte_def)
qed

lemma cont_accumulate:
  assumes "k < 2 ^ 20" and "cont_byte c"
  shows "push_bit 6 (of_nat k) OR (uchar c AND 0x3F) = (of_nat (64 * k + (byte_val c - 128)) :: 32 word)"
proof -
  have low: "uchar c AND of_nat 0x3F = of_nat (byte_val c mod 64)"
    unfolding uchar_and by (simp only: nat_and_masks)
  have "byte_val c mod 64 = byte_val c - 128"
    using assms(2) mod_offset [of 2 64 "byte_val c"] by (simp add: cont_byte_def)
  moreover have "push_bit 6 (of_nat k) + (of_nat (byte_val c mod 64) :: 32 word) =
      push_bit 6 (of_nat k) OR of_nat (byte_val c mod 64)"
    by (rule disjunctive_add)
       (auto simp: bit_push_bit_iff bit_of_nat_iff bit_take_bit_iff
         simp flip: take_bit_eq_mod [of 6, simplified])
  ultimately show ?thesis
    using low by (simp add: push_bit_eq_mult mult.commute)
qed

section \<open>One encoded character\<close>

lemma utf8_cont_done: "n < off \<Longrightarrow> utf8_cont t i n off w = Some w"
  by (subst utf8_cont.simps) simp

lemma utf8_cont_step:
  assumes "off \<le> n" and "k < 1048576" and "off' = Suc off"
    and "k' = 64 * k + (byte_val (t ! (i + off)) - 128)"
  shows "utf8_cont t i n off (of_nat k) =
    (if cont_byte (t ! (i + off)) then utf8_cont t i n off' (of_nat k') else None)"
  using assms by (subst utf8_cont.simps) (simp add: uchar_cont_test cont_accumulate)

lemma uchar_le:
  assumes "k < 256"
  shows "uchar c \<le> of_nat k \<longleftrightarrow> byte_val c \<le> k" and "of_nat k \<le> uchar c \<longleftrightarrow> k \<le> byte_val c"
  unfolding uchar_of_nat using assms byte_val_less [of c]
  by (simp_all only: small_word_le less_trans [OF _ byte_bound])

lemma utf8_lead_byte:
  "utf8_lead (uchar c) =
     (if byte_val c < 0x80 then Some (0, of_nat (byte_val c))
      else if 0xC2 \<le> byte_val c \<and> byte_val c < 0xE0 then Some (1, of_nat (byte_val c - 0xC0))
      else if 0xE0 \<le> byte_val c \<and> byte_val c < 0xF0 then Some (2, of_nat (byte_val c - 0xE0))
      else if 0xF0 \<le> byte_val c \<and> byte_val c < 0xF5 then Some (3, of_nat (byte_val c - 0xF0))
      else None)"
proof -
  have masks: "uchar c AND 0x1F = of_nat (byte_val c mod 32)"
    "uchar c AND 0x0F = of_nat (byte_val c mod 16)" "uchar c AND 0x07 = of_nat (byte_val c mod 8)"
    using uchar_and [of c "0x1F"] uchar_and [of c "0x0F"] uchar_and [of c "0x07"]
    by (simp_all only: nat_and_masks of_nat_numeral)
  have mods: "0xC2 \<le> b \<Longrightarrow> b < 0xE0 \<Longrightarrow> b mod 32 = b - 0xC0"
    "0xE0 \<le> b \<Longrightarrow> b < 0xF0 \<Longrightarrow> b mod 16 = b - 0xE0"
    "0xF0 \<le> b \<Longrightarrow> b < 0xF5 \<Longrightarrow> b mod 8 = b - 0xF0" for b :: nat
    using mod_offset [of 6 32 b] mod_offset [of 14 16 b] mod_offset [of 30 8 b] by simp_all
  show ?thesis
    unfolding utf8_lead_def
    using uchar_le [of "0x7F" c] uchar_le [of "0xC2" c] uchar_le [of "0xDF" c] uchar_le [of "0xE0" c]
      uchar_le [of "0xEF" c] uchar_le [of "0xF0" c] uchar_le [of "0xF4" c]
    by (simp add: masks mods flip: uchar_of_nat)
qed

lemma utf8_cont_0: "utf8_cont t i 0 1 w = Some w"
  by (simp add: utf8_cont_done)

lemma utf8_cont_1:
  assumes "k < 32" and "k1 = 64 * k + (byte_val (t ! (i + 1)) - 128)"
  shows "utf8_cont t i 1 1 (of_nat k) = (if cont_byte (t ! (i + 1)) then Some (of_nat k1) else None)"
proof -
  have "utf8_cont t i 1 1 (of_nat k) =
      (if cont_byte (t ! (i + 1)) then utf8_cont t i 1 2 (of_nat k1) else None)"
    using assms by (intro utf8_cont_step) simp_all
  then show ?thesis by (simp add: utf8_cont_done)
qed

lemma cont_shift_bound:
  assumes "k < b"
  shows "64 * k + (byte_val c - 128) < 64 * b + 64"
  using assms byte_val_less [of c] by linarith

lemma utf8_cont_2:
  assumes "k < 16" and k1: "k1 = 64 * k + (byte_val (t ! (i + 1)) - 128)"
    and k2: "k2 = 64 * k1 + (byte_val (t ! (i + 2)) - 128)"
  shows "utf8_cont t i 2 1 (of_nat k) =
    (if cont_byte (t ! (i + 1)) \<and> cont_byte (t ! (i + 2)) then Some (of_nat k2) else None)"
proof -
  have "k1 < 1048576"
    using cont_shift_bound [OF assms(1), of "t ! (i + 1)"] by (simp add: k1)
  then have "utf8_cont t i 2 2 (of_nat k1) =
      (if cont_byte (t ! (i + 2)) then utf8_cont t i 2 3 (of_nat k2) else None)"
    using k2 by (intro utf8_cont_step) simp_all
  moreover have "utf8_cont t i 2 1 (of_nat k) =
      (if cont_byte (t ! (i + 1)) then utf8_cont t i 2 2 (of_nat k1) else None)"
    using assms by (intro utf8_cont_step) simp_all
  ultimately show ?thesis by (simp add: utf8_cont_done)
qed

lemma utf8_cont_3:
  assumes "k < 8" and k1: "k1 = 64 * k + (byte_val (t ! (i + 1)) - 128)"
    and k2: "k2 = 64 * k1 + (byte_val (t ! (i + 2)) - 128)"
    and k3: "k3 = 64 * k2 + (byte_val (t ! (i + 3)) - 128)"
  shows "utf8_cont t i 3 1 (of_nat k) =
    (if cont_byte (t ! (i + 1)) \<and> cont_byte (t ! (i + 2)) \<and> cont_byte (t ! (i + 3))
     then Some (of_nat k3) else None)"
proof -
  have b1: "k1 < 576"
    using cont_shift_bound [OF assms(1), of "t ! (i + 1)"] by (simp add: k1)
  have b2: "k2 < 1048576"
    using cont_shift_bound [OF b1, of "t ! (i + 2)"] by (simp add: k2)
  have "utf8_cont t i 3 3 (of_nat k2) =
      (if cont_byte (t ! (i + 3)) then utf8_cont t i 3 4 (of_nat k3) else None)"
    using b2 k3 by (intro utf8_cont_step) simp_all
  moreover have "utf8_cont t i 3 2 (of_nat k1) =
      (if cont_byte (t ! (i + 2)) then utf8_cont t i 3 3 (of_nat k2) else None)"
    using b1 k2 by (intro utf8_cont_step) simp_all
  moreover have "utf8_cont t i 3 1 (of_nat k) =
      (if cont_byte (t ! (i + 1)) then utf8_cont t i 3 2 (of_nat k1) else None)"
    using assms by (intro utf8_cont_step) simp_all
  ultimately show ?thesis by (simp add: utf8_cont_done)
qed

lemma utf8_rejected_nat:
  assumes "cp < 2 ^ 32"
  shows "utf8_rejected n (of_nat cp) \<longleftrightarrow>
    (n = 2 \<and> cp < 0x800) \<or> (n = 3 \<and> cp < 0x10000) \<or> \<not> scalar_value cp"
proof -
  have le: "of_nat cp \<le> (of_nat k :: 32 word) \<longleftrightarrow> cp \<le> k" "of_nat k \<le> (of_nat cp :: 32 word) \<longleftrightarrow> k \<le> cp"
    if "k < 2 ^ 32" for k
    using that assms by (simp_all only: small_word_le)
  have "of_nat cp < (of_nat 0x800 :: 32 word) \<longleftrightarrow> cp < 0x800"
    "of_nat cp < (of_nat 0x10000 :: 32 word) \<longleftrightarrow> cp < 0x10000"
    "of_nat 0x10FFFF < (of_nat cp :: 32 word) \<longleftrightarrow> 0x10FFFF < cp"
    "of_nat 0xD800 \<le> (of_nat cp :: 32 word) \<longleftrightarrow> 0xD800 \<le> cp"
    "of_nat cp \<le> (of_nat 0xDFFF :: 32 word) \<longleftrightarrow> cp \<le> 0xDFFF"
    using le [of "0x800"] le [of "0x10000"] le [of "0x10FFFF"] le [of "0xD800"] le [of "0xDFFF"]
    by (simp_all flip: not_le)
  then show ?thesis
    by (auto simp: utf8_rejected_def scalar_value_def)
qed

section \<open>Reading one character at an index\<close>

lemma drop_prefix:
  assumes "drop i t = xs @ r"
  shows "k < length xs \<Longrightarrow> t ! (i + k) = xs ! k" and "i + length xs \<le> length t \<or> xs = []"
proof -
  show "i + length xs \<le> length t \<or> xs = []"
    using arg_cong [OF assms, of length] by (cases xs) auto
  show "t ! (i + k) = xs ! k" if "k < length xs"
  proof -
    have "i \<le> length t"
      using arg_cong [OF assms, of length] that by (cases "i \<le> length t") auto
    then have "t ! (i + k) = drop i t ! k" by simp
    with that show ?thesis by (simp add: assms nth_append)
  qed
qed

lemma drop_slice: "i + n < length t \<Longrightarrow> drop i t = map ((!) t) [i..<i + n + 1] @ drop (i + n + 1) t"
proof (induction n)
  case 0
  then show ?case by (simp add: Cons_nth_drop_Suc)
next
  case (Suc n)
  then show ?case by (simp add: Cons_nth_drop_Suc)
qed

text \<open>Splitting a code point into its six-bit groups, and joining it again.\<close>

lemma six_bits:
  fixes x y :: nat
  assumes "p = 64 * x + y" and "y < 64"
  shows "p div 64 = x" and "p mod 64 = y"
  using assms by simp_all

lemma div_4096: "n div 4096 = n div 64 div (64 :: nat)" and div_262144: "n div 262144 = n div 64 div 64 div (64 :: nat)"
  by (simp_all flip: div_mult2_eq)

lemma utf8_encode_1: "b < 0x80 \<Longrightarrow> utf8_encode b = [char_of b]"
  by (simp add: utf8_encode_def)

lemma utf8_encode_2:
  assumes "p = 64 * x + y" and "y < 64" and "2 \<le> x" and "x < 32"
  shows "utf8_encode p = [char_of (0xC0 + x), char_of (0x80 + y)]"
  using six_bits [OF assms(1,2)] assms by (simp add: utf8_encode_def)

lemma utf8_encode_3:
  assumes "p = 64 * x + y" "q = 64 * p + z" and "y < 64" "z < 64" and "x < 16" and "0x800 \<le> q"
  shows "utf8_encode q = [char_of (0xE0 + x), char_of (0x80 + y), char_of (0x80 + z)]"
proof -
  have "q < 0x10000" using assms by linarith
  with assms(6) show ?thesis
    using six_bits [OF assms(1,3)] six_bits [OF assms(2,4)]
    by (simp add: utf8_encode_def div_4096)
qed

lemma utf8_encode_4:
  assumes "p = 64 * x + y" "q = 64 * p + z" "r = 64 * q + u" and "y < 64" "z < 64" "u < 64"
    and "0x10000 \<le> r"
  shows "utf8_encode r =
    [char_of (0xF0 + x), char_of (0x80 + y), char_of (0x80 + z), char_of (0x80 + u)]"
  using assms(7) six_bits [OF assms(1,4)] six_bits [OF assms(2,5)] six_bits [OF assms(3,6)]
  by (simp add: utf8_encode_def div_4096 div_262144)

lemma cont_byteE:
  assumes "cont_byte c"
  obtains y where "y < 64" and "c = char_of (0x80 + y)" and "byte_val c - 128 = y"
proof
  show "byte_val c - 128 < 64" and "byte_val c - 128 = byte_val c - 128"
    using assms by (auto simp: cont_byte_def)
  have "c = char_of (byte_val c)" by simp
  also have "byte_val c = 0x80 + (byte_val c - 128)"
    using assms by (simp add: cont_byte_def)
  finally show "c = char_of (0x80 + (byte_val c - 128))" .
qed

text \<open>What the validator accepts at an index is the encoding of one scalar value.\<close>

lemma upt_slices: "[i..<i + 0 + 1] = [i]" "[i..<i + 1 + 1] = [i, i + 1]"
  "[i..<i + 2 + 1] = [i, i + 1, i + 2]" "[i..<i + 3 + 1] = [i, i + 1, i + 2, i + 3]"
  by (simp_all add: upt_rec)

lemma char_of_offset: "m \<le> byte_val c \<Longrightarrow> char_of (m + (byte_val c - m)) = c"
  by simp

lemma utf8_accept_2:
  assumes lead: "0xC2 \<le> byte_val (t ! i)" "byte_val (t ! i) < 0xE0"
    and cont: "utf8_cont t i 1 1 (of_nat (byte_val (t ! i) - 0xC0)) = Some cpw"
  shows "\<exists>cp. scalar_value cp \<and> utf8_encode cp = [t ! i, t ! (i + 1)]"
proof -
  let ?x = "byte_val (t ! i) - 0xC0"
  define k1 where "k1 = 64 * ?x + (byte_val (t ! (i + 1)) - 128)"
  have "?x < 32" using lead by linarith
  from utf8_cont_1 [OF this k1_def] cont have "cont_byte (t ! (i + 1))"
    by (simp split: if_splits)
  then obtain y where y: "y < 64" "t ! (i + 1) = char_of (0x80 + y)" "byte_val (t ! (i + 1)) - 128 = y"
    by (rule cont_byteE)
  have "2 \<le> ?x" using lead by linarith
  from utf8_encode_2 [OF k1_def [unfolded y(3)] y(1) this \<open>?x < 32\<close>]
  have "utf8_encode k1 = [t ! i, t ! (i + 1)]"
    using lead y(2) by simp
  moreover have "k1 < 0x800" using \<open>?x < 32\<close> y(1,3) unfolding k1_def by linarith
  then have "scalar_value k1" by (simp add: scalar_value_def)
  ultimately show ?thesis by blast
qed

lemma utf8_accept_3:
  assumes lead: "0xE0 \<le> byte_val (t ! i)" "byte_val (t ! i) < 0xF0"
    and cont: "utf8_cont t i 2 1 (of_nat (byte_val (t ! i) - 0xE0)) = Some cpw"
    and ok: "\<not> utf8_rejected 2 cpw"
  shows "\<exists>cp. scalar_value cp \<and> utf8_encode cp = [t ! i, t ! (i + 1), t ! (i + 2)]"
proof -
  let ?x = "byte_val (t ! i) - 0xE0"
  define k1 where "k1 = 64 * ?x + (byte_val (t ! (i + 1)) - 128)"
  define k2 where "k2 = 64 * k1 + (byte_val (t ! (i + 2)) - 128)"
  have x: "?x < 16" using lead by linarith
  from utf8_cont_2 [OF x k1_def k2_def] cont
  have cs: "cont_byte (t ! (i + 1))" "cont_byte (t ! (i + 2))" and cpw: "cpw = of_nat k2"
    by (simp_all only: option.simps split: if_splits)
  obtain y where y: "y < 64" "t ! (i + 1) = char_of (0x80 + y)" "byte_val (t ! (i + 1)) - 128 = y"
    using cs(1) by (rule cont_byteE)
  obtain z where z: "z < 64" "t ! (i + 2) = char_of (0x80 + z)" "byte_val (t ! (i + 2)) - 128 = z"
    using cs(2) by (rule cont_byteE)
  have "k2 < 2 ^ 32" using x y(1,3) z(1,3) unfolding k1_def k2_def by simp
  from ok [unfolded cpw utf8_rejected_nat [OF this]]
  have k2: "scalar_value k2" "0x800 \<le> k2" by auto
  from utf8_encode_3 [OF k1_def [unfolded y(3)] k2_def [unfolded z(3)] y(1) z(1) x k2(2)]
  have "utf8_encode k2 = [t ! i, t ! (i + 1), t ! (i + 2)]"
    using lead y(2) z(2) by simp
  with k2(1) show ?thesis by blast
qed

lemma utf8_accept_4:
  assumes lead: "0xF0 \<le> byte_val (t ! i)" "byte_val (t ! i) < 0xF5"
    and cont: "utf8_cont t i 3 1 (of_nat (byte_val (t ! i) - 0xF0)) = Some cpw"
    and ok: "\<not> utf8_rejected 3 cpw"
  shows "\<exists>cp. scalar_value cp \<and> utf8_encode cp = [t ! i, t ! (i + 1), t ! (i + 2), t ! (i + 3)]"
proof -
  let ?x = "byte_val (t ! i) - 0xF0"
  define k1 where "k1 = 64 * ?x + (byte_val (t ! (i + 1)) - 128)"
  define k2 where "k2 = 64 * k1 + (byte_val (t ! (i + 2)) - 128)"
  define k3 where "k3 = 64 * k2 + (byte_val (t ! (i + 3)) - 128)"
  have x: "?x < 8" using lead by linarith
  from utf8_cont_3 [OF x k1_def k2_def k3_def] cont
  have cs: "cont_byte (t ! (i + 1))" "cont_byte (t ! (i + 2))" "cont_byte (t ! (i + 3))"
    and cpw: "cpw = of_nat k3"
    by (simp_all only: option.simps split: if_splits)
  obtain y where y: "y < 64" "t ! (i + 1) = char_of (0x80 + y)" "byte_val (t ! (i + 1)) - 128 = y"
    using cs(1) by (rule cont_byteE)
  obtain z where z: "z < 64" "t ! (i + 2) = char_of (0x80 + z)" "byte_val (t ! (i + 2)) - 128 = z"
    using cs(2) by (rule cont_byteE)
  obtain u where u: "u < 64" "t ! (i + 3) = char_of (0x80 + u)" "byte_val (t ! (i + 3)) - 128 = u"
    using cs(3) by (rule cont_byteE)
  have "k3 < 2 ^ 32" using x y(1,3) z(1,3) u(1,3) unfolding k1_def k2_def k3_def by simp
  from ok [unfolded cpw utf8_rejected_nat [OF this]]
  have k3: "scalar_value k3" "0x10000 \<le> k3" by auto
  from utf8_encode_4 [OF k1_def [unfolded y(3)] k2_def [unfolded z(3)] k3_def [unfolded u(3)]
      y(1) z(1) u(1) k3(2)]
  have "utf8_encode k3 = [t ! i, t ! (i + 1), t ! (i + 2), t ! (i + 3)]"
    using lead y(2) z(2) u(2) by simp
  with k3(1) show ?thesis by blast
qed

lemma utf8_accept_char:
  assumes lead: "utf8_lead (uchar (t ! i)) = Some (n, w)"
    and cont: "utf8_cont t i n 1 w = Some cpw"
    and ok: "\<not> utf8_rejected n cpw"
  shows "\<exists>cp. scalar_value cp \<and> utf8_encode cp = map ((!) t) [i..<i + n + 1]"
proof -
  let ?b = "byte_val (t ! i)"
  consider (a) "n = 0" "?b < 0x80"
    | (b) "n = 1" "w = of_nat (?b - 0xC0)" "0xC2 \<le> ?b" "?b < 0xE0"
    | (c) "n = 2" "w = of_nat (?b - 0xE0)" "0xE0 \<le> ?b" "?b < 0xF0"
    | (d) "n = 3" "w = of_nat (?b - 0xF0)" "0xF0 \<le> ?b" "?b < 0xF5"
    using lead unfolding utf8_lead_byte by (simp only: option.inject prod.inject option.simps split: if_splits)
  then show ?thesis
  proof cases
    case a
    then have "scalar_value ?b \<and> utf8_encode ?b = map ((!) t) [i..<i + n + 1]"
      by (simp add: scalar_value_def utf8_encode_1 upt_slices)
    then show ?thesis by blast
  next
    case b
    from utf8_accept_2 [OF b(3,4) cont [unfolded b(1,2)]]
    show ?thesis by (simp only: b(1) upt_slices list.map)
  next
    case c
    from utf8_accept_3 [OF c(3,4) cont [unfolded c(1,2)] ok [unfolded c(1)]]
    show ?thesis by (simp only: c(1) upt_slices list.map)
  next
    case d
    from utf8_accept_4 [OF d(3,4) cont [unfolded d(1,2)] ok [unfolded d(1)]]
    show ?thesis by (simp only: d(1) upt_slices list.map)
  qed
qed

text \<open>Conversely, the validator moves past the encoding of a scalar value.\<close>

lemma cont_byteI:
  assumes "y < 64"
  shows "cont_byte (char_of (0x80 + y))" and "byte_val (char_of (0x80 + y)) - 128 = y"
  using assms by (simp_all add: cont_byte_def byte_val_def)

lemma utf8_loop_advance:
  assumes "i + n < length t" and "utf8_lead (uchar (t ! i)) = Some (n, w)"
    and "utf8_cont t i n 1 w = Some (of_nat cp)" and "cp < 2 ^ 32"
    and "n = 2 \<Longrightarrow> 0x800 \<le> cp" and "n = 3 \<Longrightarrow> 0x10000 \<le> cp" and "scalar_value cp"
  shows "utf8_loop t i = utf8_loop t (i + (n + 1))"
proof -
  have "\<not> utf8_rejected n (of_nat cp)"
    using assms(4-7) by (auto simp: utf8_rejected_nat)
  then show ?thesis
    using assms(1-3) by (subst utf8_loop.simps) (simp del: of_nat_add)
qed

lemma utf8_encode_cases:
  assumes "scalar_value cp"
  obtains (a) "cp < 0x80" "utf8_encode cp = [char_of cp]"
    | (b) x y where "x < 32" "2 \<le> x" "y < 64" "cp = 64 * x + y"
        "utf8_encode cp = [char_of (0xC0 + x), char_of (0x80 + y)]"
    | (c) x y z where "x < 16" "y < 64" "z < 64" "cp = 64 * (64 * x + y) + z" "0x800 \<le> cp"
        "utf8_encode cp = [char_of (0xE0 + x), char_of (0x80 + y), char_of (0x80 + z)]"
    | (d) x y z u where "x < 5" "y < 64" "z < 64" "u < 64" "cp = 64 * (64 * (64 * x + y) + z) + u"
        "0x10000 \<le> cp"
        "utf8_encode cp = [char_of (0xF0 + x), char_of (0x80 + y), char_of (0x80 + z), char_of (0x80 + u)]"
proof -
  have split: "n = 64 * (n div 64) + n mod 64" for n :: nat by simp
  consider "cp < 0x80" | "0x80 \<le> cp" "cp < 0x800" | "0x800 \<le> cp" "cp < 0x10000"
    | "0x10000 \<le> cp" "cp \<le> 0x10FFFF"
    using assms by (fastforce simp: scalar_value_def)
  then show ?thesis
  proof cases
    case 1
    then show ?thesis by (intro a) (simp_all add: utf8_encode_1)
  next
    case 2
    then show ?thesis
      by (intro b [of "cp div 64" "cp mod 64"]) (simp_all add: utf8_encode_def)
  next
    case 3
    then show ?thesis
      using split [of cp] split [of "cp div 64"]
      by (intro c [of "cp div 64 div 64" "cp div 64 mod 64" "cp mod 64"])
        (simp_all add: utf8_encode_def div_4096)
  next
    case 4
    then show ?thesis
      using split [of cp] split [of "cp div 64"] split [of "cp div 64 div 64"]
      by (intro d [of "cp div 64 div 64 div 64" "cp div 64 div 64 mod 64" "cp div 64 mod 64" "cp mod 64"])
        (simp_all add: utf8_encode_def div_4096 div_262144)
  qed
qed

lemma lead_of_char:
  "x < 0x80 \<Longrightarrow> utf8_lead (uchar (char_of x)) = Some (0, of_nat x)"
  "2 \<le> x \<Longrightarrow> x < 32 \<Longrightarrow> utf8_lead (uchar (char_of (0xC0 + x))) = Some (1, of_nat x)"
  "x < 16 \<Longrightarrow> utf8_lead (uchar (char_of (0xE0 + x))) = Some (2, of_nat x)"
  "x < 5 \<Longrightarrow> utf8_lead (uchar (char_of (0xF0 + x))) = Some (3, of_nat x)"
  unfolding utf8_lead_byte by (simp_all add: byte_val_char_of)

lemma utf8_loop_encode:
  assumes sc: "scalar_value cp" and t: "drop i t = utf8_encode cp @ r"
  shows "utf8_loop t i = utf8_loop t (i + length (utf8_encode cp))"
  using sc
proof (cases rule: utf8_encode_cases)
  case a
  note d = drop_prefix [OF t [unfolded a(2)]]
  have "utf8_loop t i = utf8_loop t (i + (0 + 1))"
    using a d(1) [of 0] d(2) sc
    by (intro utf8_loop_advance [where cp = cp]) (simp_all add: lead_of_char utf8_cont_done)
  then show ?thesis by (simp add: a)
next
  case (b x y)
  note d = drop_prefix [OF t [unfolded b(5)]]
  have t1: "t ! (i + 1) = char_of (0x80 + y)" using d(1) [of 1] by simp
  have "utf8_cont t i 1 1 (of_nat x) = Some (of_nat cp)"
    using utf8_cont_1 [OF b(1) refl, of t i] t1 cont_byteI [OF b(3)] b(4) by simp
  then have "utf8_loop t i = utf8_loop t (i + (1 + 1))"
    using b d(1) [of 0] d(2) sc
    by (intro utf8_loop_advance [where cp = cp and w = "of_nat x"]) (simp_all add: lead_of_char)
  then show ?thesis by (simp add: b(5))
next
  case (c x y z)
  note d = drop_prefix [OF t [unfolded c(6)]]
  have ts: "t ! (i + 1) = char_of (0x80 + y)" "t ! (i + 2) = char_of (0x80 + z)"
    using d(1) [of 1] d(1) [of 2] by simp_all
  have "utf8_cont t i 2 1 (of_nat x) = Some (of_nat cp)"
    using utf8_cont_2 [OF c(1) refl refl, of t i] ts cont_byteI [OF c(2)] cont_byteI [OF c(3)] c(4)
    by simp
  then have "utf8_loop t i = utf8_loop t (i + (2 + 1))"
    using c d(1) [of 0] d(2) sc
    by (intro utf8_loop_advance [where cp = cp and w = "of_nat x"]) (simp_all add: lead_of_char)
  then show ?thesis by (simp add: c(6) eval_nat_numeral)
next
  case (d x y z u)
  note e = drop_prefix [OF t [unfolded d(7)]]
  have ts: "t ! (i + 1) = char_of (0x80 + y)" "t ! (i + 2) = char_of (0x80 + z)"
    "t ! (i + 3) = char_of (0x80 + u)"
    using e(1) [of 1] e(1) [of 2] e(1) [of 3] by simp_all
  have "x < 8" using d(1) by simp
  then have "utf8_cont t i 3 1 (of_nat x) = Some (of_nat cp)"
    using utf8_cont_3 [OF _ refl refl refl, of x t i] ts cont_byteI [OF d(2)] cont_byteI [OF d(3)]
      cont_byteI [OF d(4)] d(5)
    by simp
  then have "utf8_loop t i = utf8_loop t (i + (3 + 1))"
    using d e(1) [of 0] e(2) sc
    by (intro utf8_loop_advance [where cp = cp and w = "of_nat x"]) (simp_all add: lead_of_char)
  then show ?thesis by (simp add: d(7) eval_nat_numeral)
qed

section \<open>The validator accepts exactly the encodings of scalar values\<close>

lemma utf8_loop_complete:
  "drop i t = concat (map utf8_encode cps) \<Longrightarrow> list_all scalar_value cps \<Longrightarrow> utf8_loop t i"
proof (induction cps arbitrary: i)
  case Nil
  then show ?case by (subst utf8_loop.simps) simp
next
  case (Cons cp cps)
  then have "drop i t = utf8_encode cp @ concat (map utf8_encode cps)" by simp
  moreover from this have "drop (i + length (utf8_encode cp)) t = concat (map utf8_encode cps)"
    by (metis add.commute append_eq_conv_conj drop_drop)
  ultimately show ?case
    using Cons utf8_loop_encode by auto
qed

lemma utf8_loop_sound:
  "utf8_loop t i \<Longrightarrow> \<exists>cps. list_all scalar_value cps \<and> drop i t = concat (map utf8_encode cps)"
proof (induction t i rule: utf8_loop.induct)
  case (1 t i)
  show ?case
  proof (cases "i < length t")
    case False
    then have "list_all scalar_value [] \<and> drop i t = concat (map utf8_encode [])" by simp
    then show ?thesis by blast
  next
    case True
    obtain n w cpw where step: "utf8_lead (uchar (t ! i)) = Some (n, w)" "i + n < length t"
        "utf8_cont t i n 1 w = Some cpw" "\<not> utf8_rejected n cpw" "utf8_loop t (i + (n + 1))"
      using "1.prems" True by (subst (asm) utf8_loop.simps) (auto split: option.splits if_splits)
    from utf8_accept_char [OF step(1,3,4)] obtain cp where
      cp: "scalar_value cp" "utf8_encode cp = map ((!) t) [i..<i + n + 1]" by blast
    from "1.IH" [OF True step(1) refl _ step(3) step(4) step(5)] step(2) obtain cps where
      cps: "list_all scalar_value cps" "drop (i + (n + 1)) t = concat (map utf8_encode cps)"
      by auto
    have "list_all scalar_value (cp # cps) \<and> drop i t = concat (map utf8_encode (cp # cps))"
      using drop_slice [OF step(2)] cp cps by simp
    then show ?thesis by blast
  qed
qed


lemma utf8_ascii:
  assumes "list_all (\<lambda>c. byte_val c < 128) t"
  shows "is_valid_utf8 t"
proof -
  have "concat (map utf8_encode (map byte_val t)) = t"
    using assms by (induction t) (simp_all add: utf8_encode_1)
  moreover have "list_all scalar_value (map byte_val t)"
    using assms by (auto simp: list_all_iff scalar_value_def)
  ultimately show ?thesis
    using utf8_loop_complete [of 0 t "map byte_val t"] by (simp add: is_valid_utf8_def)
qed

text \<open>
  C18: \<open>is_valid_utf8\<close> accepts a byte string exactly when it is the concatenation of the UTF-8
  encodings of Unicode scalar values: overlong forms, surrogates, values above U+10FFFF,
  stray or missing continuation bytes are all rejected, and nothing well-formed is.
\<close>

theorem is_valid_utf8_correct:
  "is_valid_utf8 t \<longleftrightarrow> (\<exists>cps. list_all scalar_value cps \<and> t = concat (map utf8_encode cps))"
  unfolding is_valid_utf8_def
  using utf8_loop_sound [of t 0] utf8_loop_complete [of 0 t] by auto

end
