(* ===== verification/Les_Json_Text.thy ===== *)
theory Les_Json_Text
  imports Les_Json Les_Utf8
begin

text \<open>
  A text form for the values of \<open>Les_Json\<close>: a printer in the plain style of json-c and a recursive
  descent parser.  Printing a well-formed value and parsing the text gives the value back and
  consumes the text to its last byte, so the contract \<open>json_library\<close> and the round trips the
  exchange of messages relies on hold of a concrete, executable text format.  The examples of
  the development use it.
\<close>

section \<open>Printing\<close>

definition hex_digit :: "nat \<Rightarrow> char" where
  "hex_digit n = (if n < 10 then char_of (48 + n) else char_of (87 + n))"

definition escape_char :: "char \<Rightarrow> bytes" where
  "escape_char c =
     (if c = CHR 0x22 then [CHR 0x5C, CHR 0x22]
      else if c = CHR 0x5C then [CHR 0x5C, CHR 0x5C]
      else if c = CHR ''/'' then [CHR 0x5C, CHR ''/'']
      else if (of_char c :: nat) < 32
        then [CHR 0x5C, CHR ''u'', CHR ''0'', CHR ''0'', hex_digit (of_char c div 16), hex_digit (of_char c mod 16)]
      else [c])"

definition print_string :: "bytes \<Rightarrow> bytes" where
  "print_string s = CHR 0x22 # concat (map escape_char s) @ [CHR 0x22]"

definition print_int :: "int \<Rightarrow> bytes" where
  "print_int n = (if n < 0 then CHR ''-'' # to_string (nat (- n)) else to_string (nat n))"

fun commas :: "bytes list \<Rightarrow> bytes" where
  "commas [] = []"
| "commas [x] = x"
| "commas (x # y # xs) = x @ CHR '','' # commas (y # xs)"

fun json_print :: "json \<Rightarrow> bytes" where
  "json_print JNull = ''null''"
| "json_print (JBool b) = (if b then ''true'' else ''false'')"
| "json_print JDouble = ''0.0''"
| "json_print (JInt n) = print_int n"
| "json_print (JString s) = print_string s"
| "json_print (JArray xs) = CHR ''['' # commas (map json_print xs) @ [CHR '']'']"
| "json_print (JObject ms) =
     CHR ''{'' # commas (map (\<lambda>(k, v). print_string k @ CHR '':'' # json_print v) ms) @ [CHR ''}'']"

section \<open>Parsing\<close>

definition skip_space :: "bytes \<Rightarrow> bytes" where
  "skip_space s = dropWhile (\<lambda>c. c \<in> {CHR '' '', CHR 0x09, CHR 0x0A, CHR 0x0D}) s"

definition expect :: "char \<Rightarrow> bytes \<Rightarrow> bytes option" where
  "expect c s = (case skip_space s of [] \<Rightarrow> None | d # r \<Rightarrow> if d = c then Some r else None)"

fun strip_prefix :: "bytes \<Rightarrow> bytes \<Rightarrow> bytes option" where
  "strip_prefix [] s = Some s"
| "strip_prefix (c # p) [] = None"
| "strip_prefix (c # p) (d # s) = (if c = d then strip_prefix p s else None)"

definition hex_value :: "char \<Rightarrow> nat option" where
  "hex_value c =
     (let n = of_char c in
      if 48 \<le> n \<and> n \<le> 57 then Some (n - 48)
      else if 97 \<le> n \<and> n \<le> 102 then Some (n - 87)
      else if 65 \<le> n \<and> n \<le> 70 then Some (n - 55)
      else None)"

definition hex4 :: "char \<Rightarrow> char \<Rightarrow> char \<Rightarrow> char \<Rightarrow> nat option" where
  "hex4 a b c d =
     (case (hex_value a, hex_value b, hex_value c, hex_value d) of
        (Some i, Some j, Some k, Some l) \<Rightarrow> Some (((i * 16 + j) * 16 + k) * 16 + l)
      | _ \<Rightarrow> None)"

definition unescape :: "char \<Rightarrow> char option" where
  "unescape c =
     map_of [(CHR 0x22, CHR 0x22), (CHR 0x5C, CHR 0x5C), (CHR ''/'', CHR ''/''), (CHR ''b'', CHR 0x08),
       (CHR ''f'', CHR 0x0C), (CHR ''n'', CHR 0x0A), (CHR ''r'', CHR 0x0D), (CHR ''t'', CHR 0x09)] c"

definition prepend :: "bytes \<Rightarrow> (bytes \<times> bytes) option \<Rightarrow> (bytes \<times> bytes) option" where
  "prepend p r = map_option (\<lambda>(s, t). (p @ s, t)) r"

fun parse_string :: "bytes \<Rightarrow> (bytes \<times> bytes) option" where
  "parse_string [] = None"
| "parse_string (c # s) =
     (if c = CHR 0x22 then Some ([], s)
      else if c = CHR 0x5C then
        (case s of
           [] \<Rightarrow> None
         | e # t \<Rightarrow>
             if e = CHR ''u'' then
               (case t of
                  h1 # h2 # h3 # h4 # u \<Rightarrow>
                    (case hex4 h1 h2 h3 h4 of
                       None \<Rightarrow> None
                     | Some n \<Rightarrow> prepend (utf8_encode (if scalar_value n then n else 0xFFFD)) (parse_string u))
                | _ \<Rightarrow> None)
             else (case unescape e of None \<Rightarrow> None | Some d \<Rightarrow> prepend [d] (parse_string t)))
      else prepend [c] (parse_string s))"

definition is_decimal :: "char \<Rightarrow> bool" where
  "is_decimal c \<longleftrightarrow> 48 \<le> (of_char c :: nat) \<and> (of_char c :: nat) \<le> 57"

definition parse_number :: "bytes \<Rightarrow> (json \<times> bytes) option" where
  "parse_number s =
     (let negative = (s \<noteq> [] \<and> hd s = CHR ''-''); t = (if negative then tl s else s);
          ds = takeWhile is_decimal t; r = dropWhile is_decimal t in
      if ds = [] then None
      else if r \<noteq> [] \<and> hd r = CHR ''.'' then Some (JDouble, dropWhile is_decimal (tl r))
      else
        let n = int (dec_value ds) in
        Some (JInt (clamp int64_min int64_max (if negative then - n else n)), r))"

definition parse_atom :: "bytes \<Rightarrow> (json \<times> bytes) option" where
  "parse_atom s =
     (case strip_prefix ''null'' s of Some r \<Rightarrow> Some (JNull, r) | None \<Rightarrow>
      case strip_prefix ''true'' s of Some r \<Rightarrow> Some (JBool True, r) | None \<Rightarrow>
      case strip_prefix ''false'' s of Some r \<Rightarrow> Some (JBool False, r) | None \<Rightarrow> parse_number s)"

text \<open>A member that occurs twice replaces the earlier one, as in json-c.\<close>

definition object_of :: "(bytes \<times> json) list \<Rightarrow> json" where
  "object_of ms = JObject (fold (\<lambda>(k, v). insert_or_assign k v) ms [])"

fun parse_value :: "nat \<Rightarrow> bytes \<Rightarrow> (json \<times> bytes) option"
  and parse_elements :: "nat \<Rightarrow> bytes \<Rightarrow> (json list \<times> bytes) option"
  and parse_members :: "nat \<Rightarrow> bytes \<Rightarrow> ((bytes \<times> json) list \<times> bytes) option" where
  "parse_value 0 s = None"
| "parse_value (Suc fuel) s =
     (case expect CHR ''['' s of
        Some r \<Rightarrow>
          (case expect CHR '']'' r of
             Some t \<Rightarrow> Some (JArray [], t)
           | None \<Rightarrow> map_option (\<lambda>(xs, t). (JArray xs, t)) (parse_elements fuel r))
      | None \<Rightarrow>
     case expect CHR ''{'' s of
        Some r \<Rightarrow>
          (case expect CHR ''}'' r of
             Some t \<Rightarrow> Some (JObject [], t)
           | None \<Rightarrow> map_option (\<lambda>(ms, t). (object_of ms, t)) (parse_members fuel r))
      | None \<Rightarrow>
     case expect CHR 0x22 s of
        Some r \<Rightarrow> map_option (\<lambda>(x, t). (JString x, t)) (parse_string r)
      | None \<Rightarrow> parse_atom (skip_space s))"
| "parse_elements 0 s = None"
| "parse_elements (Suc fuel) s =
     (case parse_value fuel s of
        None \<Rightarrow> None
      | Some (x, r) \<Rightarrow>
          (case expect CHR '']'' r of
             Some t \<Rightarrow> Some ([x], t)
           | None \<Rightarrow>
               (case expect CHR '','' r of
                  None \<Rightarrow> None
                | Some t \<Rightarrow> map_option (\<lambda>(xs, u). (x # xs, u)) (parse_elements fuel t))))"
| "parse_members 0 s = None"
| "parse_members (Suc fuel) s =
     (case expect CHR 0x22 s of
        None \<Rightarrow> None
      | Some r \<Rightarrow>
     case parse_string r of
        None \<Rightarrow> None
      | Some (k, r) \<Rightarrow>
     case expect CHR '':'' r of
        None \<Rightarrow> None
      | Some r \<Rightarrow>
     case parse_value fuel r of
        None \<Rightarrow> None
      | Some (v, r) \<Rightarrow>
          (case expect CHR ''}'' r of
             Some t \<Rightarrow> Some ([(k, v)], t)
           | None \<Rightarrow>
               (case expect CHR '','' r of
                  None \<Rightarrow> None
                | Some t \<Rightarrow> map_option (\<lambda>(ms, u). ((k, v) # ms, u)) (parse_members fuel t))))"

text \<open>Two units of fuel for every byte are enough: every second call consumes a byte.\<close>

definition json_tokener :: "bytes \<Rightarrow> json \<times> bool \<times> nat" where
  "json_tokener s =
     (case parse_value (2 * length s) s of
        None \<Rightarrow> (JNull, False, 0)
      | Some (v, r) \<Rightarrow> (v, True, length s - length r))"

section \<open>Strings and numbers are read back\<close>

definition is_space :: "char \<Rightarrow> bool" where
  "is_space c \<longleftrightarrow> c \<in> {CHR '' '', CHR 0x09, CHR 0x0A, CHR 0x0D}"

lemma skip_space_Cons [simp]: "\<not> is_space c \<Longrightarrow> skip_space (c # s) = c # s"
  by (simp add: skip_space_def is_space_def)

lemma expect_Cons: "\<not> is_space d \<Longrightarrow> expect c (d # r) = (if d = c then Some r else None)"
  by (simp add: expect_def)

lemma hex_value_digit: "n < 16 \<Longrightarrow> hex_value (hex_digit n) = Some n"
  by (auto simp: hex_value_def hex_digit_def Let_def)

lemma hex_value_0: "hex_value CHR ''0'' = Some 0"
  by (simp add: hex_value_def)

lemma parse_escaped: "parse_string (escape_char c @ s) = prepend [c] (parse_string s)"
proof (cases "(of_char c :: nat) < 32")
  case True
  let ?n = "of_char c :: nat"
  have "hex4 CHR ''0'' CHR ''0'' (hex_digit (?n div 16)) (hex_digit (?n mod 16)) = Some ?n"
    using True hex_value_digit [of "?n div 16"] hex_value_digit [of "?n mod 16"] hex_value_0
    by (simp add: hex4_def)
  moreover have "scalar_value ?n" "utf8_encode ?n = [c]" using True by (simp_all add: scalar_value_def utf8_encode_def)
  moreover have "c \<noteq> CHR 0x22" "c \<noteq> CHR 0x5C" "c \<noteq> CHR ''/''" using True by auto
  ultimately show ?thesis using True by (simp add: escape_char_def)
next
  case False
  then show ?thesis by (auto simp: escape_char_def unescape_def)
qed

lemma parse_string_print: "parse_string (concat (map escape_char s) @ CHR 0x22 # r) = Some (s, r)"
  by (induction s) (simp_all add: parse_escaped prepend_def)

definition stops :: "bytes \<Rightarrow> bool" where
  "stops r \<longleftrightarrow> r = [] \<or> \<not> is_decimal (hd r) \<and> hd r \<noteq> CHR ''.''"

lemma is_decimal_to_string: "c \<in> set (to_string n) \<Longrightarrow> is_decimal c"
  using to_string_chars [of c n] by (simp add: is_decimal_def)

lemma takeWhile_to_string:
  assumes "stops r"
  shows "takeWhile is_decimal (to_string n @ r) = to_string n" and "dropWhile is_decimal (to_string n @ r) = r"
  using assms is_decimal_to_string [of _ n]
  by (cases r; simp add: stops_def takeWhile_append2 dropWhile_append2)+

lemma to_string_head: "to_string n = c # s \<Longrightarrow> is_decimal c"
  using is_decimal_to_string [of c n] by simp

lemma parse_number_print:
  assumes "is_int64 n" and "stops r"
  shows "parse_number (print_int n @ r) = Some (JInt n, r)"
proof -
  have c: "clamp int64_min int64_max n = n" using assms(1) by (simp add: clamp_def is_int64_def)
  have h: "hd (to_string k @ r) \<noteq> CHR ''-''" for k
    using to_string_nonempty [of k] to_string_head [of k "CHR ''-''"] by (cases "to_string k") (auto simp: is_decimal_def)
  have d: "\<not> (r \<noteq> [] \<and> hd r = CHR ''.'')" using assms(2) by (auto simp: stops_def)
  show ?thesis
    using c h d takeWhile_to_string [OF assms(2)]
    by (cases "n < 0") (simp_all add: parse_number_def print_int_def Let_def)
qed

section \<open>Values are read back\<close>

fun wf_json :: "json \<Rightarrow> bool" where
  "wf_json (JInt n) \<longleftrightarrow> is_int64 n"
| "wf_json (JArray xs) \<longleftrightarrow> (\<forall>x \<in> set xs. wf_json x)"
| "wf_json (JObject ms) \<longleftrightarrow> distinct (map fst ms) \<and> (\<forall>m \<in> set ms. wf_json (snd m))"
| "wf_json v \<longleftrightarrow> True"

text \<open>The first byte tells the kinds of values apart.\<close>

definition starts_atom :: "char \<Rightarrow> bool" where
  "starts_atom c \<longleftrightarrow> c \<in> {CHR ''n'', CHR ''t'', CHR ''f'', CHR ''-''} \<or> is_decimal c"

lemma starts_atom_facts:
  "starts_atom c \<Longrightarrow> \<not> is_space c \<and> c \<noteq> CHR ''['' \<and> c \<noteq> CHR ''{'' \<and> c \<noteq> CHR 0x22 \<and> c \<noteq> CHR '']'' \<and> c \<noteq> CHR ''}''"
  by (auto simp: starts_atom_def is_space_def is_decimal_def)

lemma print_int_head: "\<exists>c t. print_int n = c # t \<and> (c = CHR ''-'' \<or> is_decimal c)"
  using to_string_head [of "nat n"] to_string_nonempty [of "nat n"]
  by (cases "to_string (nat n)") (auto simp: print_int_def)

lemma json_print_head: "\<exists>c t. json_print v = c # t \<and> \<not> is_space c \<and> c \<noteq> CHR '']'' \<and> c \<noteq> CHR ''}''"
proof (cases v)
  case (JInt n)
  then show ?thesis using print_int_head [of n] starts_atom_facts by (fastforce simp: starts_atom_def)
qed (auto simp: is_space_def print_string_def)

lemma parse_value_atom:
  assumes "starts_atom c"
  shows "parse_value (Suc fuel) (c # s) = parse_atom (c # s)"
  using starts_atom_facts [OF assms] by (simp add: expect_Cons)

lemma parse_atom_int:
  assumes "is_int64 n" and "stops r"
  shows "parse_atom (print_int n @ r) = Some (JInt n, r)"
proof -
  obtain c t where c: "print_int n = c # t" "c = CHR ''-'' \<or> is_decimal c" using print_int_head by blast
  then have "c \<noteq> CHR ''n''" "c \<noteq> CHR ''t''" "c \<noteq> CHR ''f''" by (auto simp: is_decimal_def)
  then show ?thesis using parse_number_print [OF assms] c(1) by (simp add: parse_atom_def)
qed

lemma stops_sep [simp]: "stops (CHR '','' # r)" "stops (CHR '']'' # r)" "stops (CHR ''}'' # r)" "stops []"
  by (simp_all add: stops_def is_decimal_def)

lemma space_sep [simp]:
  "\<not> is_space CHR '',''" "\<not> is_space CHR '']''" "\<not> is_space CHR ''}''" "\<not> is_space CHR ''[''" "\<not> is_space CHR ''{''"
  "\<not> is_space CHR '':''" "\<not> is_space CHR 0x22"
  by (simp_all add: is_space_def)

definition reads_value :: "json \<Rightarrow> bool" where
  "reads_value v \<longleftrightarrow> (\<forall>fuel r. stops r \<longrightarrow> 2 * length (json_print v) \<le> fuel \<longrightarrow>
     parse_value fuel (json_print v @ r) = Some (v, r))"

lemma reads_valueD: "reads_value v \<Longrightarrow> stops r \<Longrightarrow> 2 * length (json_print v) \<le> fuel \<Longrightarrow>
  parse_value fuel (json_print v @ r) = Some (v, r)"
  by (simp add: reads_value_def)

lemma parse_elements_print:
  "xs \<noteq> [] \<Longrightarrow> \<forall>x \<in> set xs. reads_value x \<Longrightarrow> 2 * length (commas (map json_print xs)) + 1 \<le> fuel \<Longrightarrow>
   parse_elements fuel (commas (map json_print xs) @ CHR '']'' # r) = Some (xs, r)"
proof (induction xs arbitrary: fuel rule: induct_list012)
  case 1
  then show ?case by simp
next
  case (2 x)
  obtain k where k: "fuel = Suc k" using 2 by (cases fuel) auto
  show ?case
    using 2 reads_valueD [of x "CHR '']'' # r" k] by (simp add: k expect_Cons)
next
  case (3 x y zs)
  obtain k where k: "fuel = Suc k" using 3 by (cases fuel) auto
  let ?t = "commas (map json_print (y # zs)) @ CHR '']'' # r"
  have "parse_value k (json_print x @ CHR '','' # ?t) = Some (x, CHR '','' # ?t)"
    using 3 k by (intro reads_valueD) simp_all
  moreover have "parse_elements k ?t = Some (y # zs, r)"
    using 3 k by (intro "3.IH"(2)) simp_all
  ultimately show ?case by (simp add: k expect_Cons)
qed

abbreviation print_member :: "bytes \<times> json \<Rightarrow> bytes" where
  "print_member \<equiv> \<lambda>(k, v). print_string k @ CHR '':'' # json_print v"

lemma parse_members_print:
  "ms \<noteq> [] \<Longrightarrow> \<forall>m \<in> set ms. reads_value (snd m) \<Longrightarrow> 2 * length (commas (map print_member ms)) + 1 \<le> fuel \<Longrightarrow>
   parse_members fuel (commas (map print_member ms) @ CHR ''}'' # r) = Some (ms, r)"
proof (induction ms arbitrary: fuel rule: induct_list012)
  case 1
  then show ?case by simp
next
  case (2 m)
  obtain k where k: "fuel = Suc k" using 2 by (cases fuel) auto
  show ?case
    using 2 reads_valueD [of "snd m" "CHR ''}'' # r" k]
    by (cases m) (simp add: k expect_Cons print_string_def parse_string_print)
next
  case (3 m n ms)
  obtain k where k: "fuel = Suc k" using 3 by (cases fuel) auto
  obtain name v where m: "m = (name, v)" by (cases m)
  let ?t = "commas (map print_member (n # ms)) @ CHR ''}'' # r"
  have "parse_value k (json_print v @ CHR '','' # ?t) = Some (v, CHR '','' # ?t)"
    using 3 k m by (intro reads_valueD) simp_all
  moreover have "parse_members k ?t = Some (n # ms, r)"
    using 3 k m by (intro "3.IH"(2)) simp_all
  ultimately show ?case by (simp add: k m expect_Cons print_string_def parse_string_print)
qed

lemma insert_or_assign_new: "k \<notin> fst ` set ms \<Longrightarrow> insert_or_assign k v ms = ms @ [(k, v)]"
  by (induction k v ms rule: insert_or_assign.induct) auto

lemma object_of_distinct: "distinct (map fst ms) \<Longrightarrow> object_of ms = JObject ms"
proof -
  have "distinct (map fst (acc @ ms)) \<Longrightarrow> fold (\<lambda>(k, v). insert_or_assign k v) ms acc = acc @ ms" for acc
    by (induction ms arbitrary: acc) (auto simp: insert_or_assign_new)
  from this [of "[]"] show "distinct (map fst ms) \<Longrightarrow> object_of ms = JObject ms"
    by (simp add: object_of_def)
qed

lemma commas_head:
  assumes "xs \<noteq> []" and "\<And>x. x \<in> set xs \<Longrightarrow> \<exists>c t. x = c # t \<and> P c"
  shows "\<exists>c t. commas xs = c # t \<and> P c"
  using assms by (cases xs rule: commas.cases) force+

lemma reads_valueI:
  assumes "\<And>k r. stops r \<Longrightarrow> 2 * length (json_print v) \<le> Suc k \<Longrightarrow> parse_value (Suc k) (json_print v @ r) = Some (v, r)"
  shows "reads_value v"
  unfolding reads_value_def
proof (intro allI impI)
  fix fuel r
  assume r: "stops r" "2 * length (json_print v) \<le> fuel"
  moreover obtain c t where "json_print v = c # t" using json_print_head by blast
  ultimately obtain k where "fuel = Suc k" by (cases fuel) auto
  then show "parse_value fuel (json_print v @ r) = Some (v, r)" using assms r by simp
qed

lemma reads_int: "is_int64 n \<Longrightarrow> reads_value (JInt n)"
proof -
  obtain c t where "print_int n = c # t" "starts_atom c"
    using print_int_head [of n] by (auto simp: starts_atom_def)
  then show "is_int64 n \<Longrightarrow> reads_value (JInt n)"
    using parse_value_atom [of c] parse_atom_int [of n] by (intro reads_valueI) simp
qed

lemma parse_atom_double: "stops r \<Longrightarrow> parse_atom (''0.0'' @ r) = Some (JDouble, r)"
  by (cases r) (auto simp: parse_atom_def parse_number_def is_decimal_def stops_def Let_def)

lemma reads_atom: "reads_value JNull" "reads_value (JBool b)" "reads_value JDouble"
proof -
  have a: "starts_atom CHR ''n''" "starts_atom CHR ''t''" "starts_atom CHR ''f''" "starts_atom CHR ''0''"
    by (simp_all add: starts_atom_def is_decimal_def)
  show "reads_value JNull" "reads_value (JBool b)"
    by (rule reads_valueI, simp add: parse_value_atom [OF a(1)] parse_value_atom [OF a(2)] parse_value_atom [OF a(3)]
      parse_atom_def del: parse_value.simps)+
  show "reads_value JDouble"
    using parse_atom_double by (intro reads_valueI) (simp add: parse_value_atom [OF a(4)] del: parse_value.simps)
qed

lemma reads_string: "reads_value (JString s)"
  by (rule reads_valueI) (simp add: print_string_def expect_Cons parse_string_print)

lemma reads_array:
  assumes "\<forall>x \<in> set xs. reads_value x"
  shows "reads_value (JArray xs)"
proof (cases "xs = []")
  case True
  then show ?thesis by (auto intro!: reads_valueI simp: expect_Cons)
next
  case False
  have "\<exists>c t. commas (map json_print xs) = c # t \<and> \<not> is_space c \<and> c \<noteq> CHR '']''"
  proof (rule commas_head)
    fix x
    assume "x \<in> set (map json_print xs)"
    then obtain v where "x = json_print v" by auto
    then show "\<exists>c t. x = c # t \<and> \<not> is_space c \<and> c \<noteq> CHR '']''" using json_print_head [of v] by blast
  qed (use False in simp)
  then obtain c t where c: "commas (map json_print xs) = c # t" "\<not> is_space c" "c \<noteq> CHR '']''" by blast
  show ?thesis
  proof (rule reads_valueI)
    fix k r
    assume "2 * length (json_print (JArray xs)) \<le> Suc k"
    then have "parse_elements k (commas (map json_print xs) @ CHR '']'' # r) = Some (xs, r)"
      by (intro parse_elements_print [OF False assms]) simp
    then show "parse_value (Suc k) (json_print (JArray xs) @ r) = Some (JArray xs, r)"
      using c by (simp add: expect_Cons)
  qed
qed

lemma reads_object:
  assumes "\<forall>m \<in> set ms. reads_value (snd m)" and "distinct (map fst ms)"
  shows "reads_value (JObject ms)"
proof (cases "ms = []")
  case True
  then show ?thesis by (auto intro!: reads_valueI simp: expect_Cons)
next
  case False
  obtain t where c: "commas (map print_member ms) = CHR 0x22 # t"
    using commas_head [of "map print_member ms" "\<lambda>c. c = CHR 0x22"] False by (fastforce simp: print_string_def)
  show ?thesis
  proof (rule reads_valueI)
    fix k r
    assume "2 * length (json_print (JObject ms)) \<le> Suc k"
    then have "parse_members k (commas (map print_member ms) @ CHR ''}'' # r) = Some (ms, r)"
      by (intro parse_members_print [OF False assms(1)]) simp
    then show "parse_value (Suc k) (json_print (JObject ms) @ r) = Some (JObject ms, r)"
      using c object_of_distinct [OF assms(2)] by (simp add: expect_Cons)
  qed
qed

lemma wf_reads_value: "wf_json v \<Longrightarrow> reads_value v"
proof (induction v)
  case (JObject ms)
  then show ?case by (intro reads_object) (auto elim: snds.cases intro: prod.collapse)
qed (auto intro: reads_int reads_atom reads_string reads_array)

section \<open>The library of the examples\<close>

lemma json_tokener_print:
  assumes "wf_json v"
  shows "json_tokener (json_print v) = (v, True, length (json_print v))"
  using reads_valueD [OF wf_reads_value [OF assms], of "[]"] by (simp add: json_tokener_def)

lemma no_nul_concat: "no_nul (concat xs) \<longleftrightarrow> (\<forall>x \<in> set xs. no_nul x)"
  by (auto simp: no_nul_def)

lemma no_nul_escape: "no_nul (escape_char c)"
proof -
  have "hex_digit n \<noteq> CHR 0x00" if "n < 16" for n
    using hex_value_digit [OF that] by (auto simp: hex_value_def)
  then show ?thesis by (auto simp: escape_char_def)
qed

lemma no_nul_print_string: "no_nul (print_string s)"
  by (simp add: print_string_def no_nul_concat no_nul_escape)

lemma no_nul_commas: "(\<forall>x \<in> set xs. no_nul x) \<Longrightarrow> no_nul (commas xs)"
  by (induction xs rule: commas.induct) simp_all

lemma no_nul_print: "no_nul (json_print v)"
proof (induction v)
  case (JObject ms)
  then show ?case by (auto intro!: no_nul_commas simp: no_nul_print_string elim!: snds.cases)
qed (auto intro!: no_nul_commas simp: no_nul_print_string print_int_def)

definition sample_jsonc :: "json jsonc" where
  "sample_jsonc = json_values json_print json_tokener"

lemma sample_jsonc_library: "json_library sample_jsonc"
  unfolding sample_jsonc_def by (rule jvals.json_library_axioms)

lemma sample_serialize: "serialize_json sample_jsonc v = Inr (json_print v)"
  by (simp add: serialize_json_def sample_jsonc_def json_values_def no_nul_print)

lemma sample_parse: "parse_json sample_jsonc s = (case json_tokener s of (v, ok, k) \<Rightarrow>
    Inr \<lparr>parsed_object = v, parsed_ok = ok, parse_end = k\<rparr>)"
  by (simp add: parse_json_def sample_jsonc_def json_values_def)

lemma sample_reads_back: "wf_json v \<Longrightarrow> reads_back sample_jsonc v"
  by (simp add: reads_back_def sample_serialize sample_parse json_tokener_print)

end
