(* ===== verification/Les_Codec.thy ===== *)
theory Les_Codec
  imports Les_Json_Text Les_Types
begin

text \<open>
  \<open>message_codec.cpp\<close>: a chat message as a JSON object and back.  \<open>parse_message\<close> is the only
  gate through which messages of other nodes enter the store.
\<close>

definition parse_message :: "'j jsonc \<Rightarrow> 'j \<Rightarrow> ChatMessage option" where
  "parse_message J object =
     (if \<not> object_is_type J object json_type_object then None
      else case json_get_string J object ''id'' of None \<Rightarrow> None | Some id' \<Rightarrow>
      case json_get_string J object ''origin'' of None \<Rightarrow> None | Some origin' \<Rightarrow>
      case json_get_string J object ''callsign'' of None \<Rightarrow> None | Some callsign' \<Rightarrow>
      case json_get_string J object ''channel'' of None \<Rightarrow> None | Some channel' \<Rightarrow>
      case json_get_string J object ''body'' of None \<Rightarrow> None | Some body' \<Rightarrow>
      case object_get_ex J object ''sequence'' of None \<Rightarrow> None | Some sequence' \<Rightarrow>
      if \<not> object_is_type J sequence' json_type_int then None
      else case object_get_ex J object ''created_at_ms'' of None \<Rightarrow> None | Some created_at \<Rightarrow>
      if \<not> object_is_type J created_at json_type_int then None
      else
        let sequence_value = get_int64 J sequence' in
        if sequence_value < 1 \<or> id' = [] \<or> length id' > 160 \<or> origin' = [] \<or>
           length origin' > 64 \<or> callsign' = [] \<or> length callsign' > 64 \<or>
           channel' \<noteq> default_channel \<or> body' = [] \<or> length body' > max_message_bytes \<or>
           \<not> is_valid_utf8 body'
        then None
        else Some \<lparr>sequence = word_of_int sequence_value, message_id = id', origin = origin',
          callsign = callsign', channel = channel', created_at_ms = get_int64 J created_at,
          body = body'\<rparr>)"

definition message_members :: "'j jsonc \<Rightarrow> ChatMessage \<Rightarrow> (bytes \<times> 'j) list" where
  "message_members J message =
     [(''sequence'', new_int64 J (sint (sequence message))),
      (''id'', new_string J (c_str (message_id message))),
      (''callsign'', new_string J (c_str (callsign message))),
      (''channel'', new_string J (c_str (channel message))),
      (''created_at_ms'', new_int64 J (created_at_ms message)),
      (''body'', new_string_len J (body message)),
      (''origin'', new_string J (c_str (origin message)))]"

definition message_to_json :: "'j jsonc \<Rightarrow> ChatMessage \<Rightarrow> 'j result" where
  "message_to_json J message = build_object J (message_members J message)"

section \<open>What the gate lets through\<close>

definition accepted_message :: "ChatMessage \<Rightarrow> bool" where
  "accepted_message m \<longleftrightarrow>
     1 \<le> unat (sequence m) \<and> unat (sequence m) < 2 ^ 63 \<and>
     message_id m \<noteq> [] \<and> length (message_id m) \<le> 160 \<and>
     origin m \<noteq> [] \<and> length (origin m) \<le> 64 \<and>
     callsign m \<noteq> [] \<and> length (callsign m) \<le> 64 \<and>
     channel m = default_channel \<and>
     body m \<noteq> [] \<and> length (body m) \<le> max_message_bytes \<and> is_valid_utf8 (body m) \<and>
     is_int64 (created_at_ms m)"

definition truncated :: "ChatMessage \<Rightarrow> ChatMessage" where
  "truncated m = m\<lparr>message_id := c_str (message_id m), origin := c_str (origin m),
     callsign := c_str (callsign m)\<rparr>"

definition printable_ids :: "ChatMessage \<Rightarrow> bool" where
  "printable_ids m \<longleftrightarrow> no_nul (message_id m) \<and> no_nul (origin m) \<and> no_nul (callsign m)"

lemma truncated_id [simp]: "printable_ids m \<Longrightarrow> truncated m = m"
  by (simp add: truncated_def printable_ids_def)

lemma parse_message_accepted:
  assumes "json_library J" and "parse_message J v = Some m"
  shows "accepted_message m"
proof -
  have range: "is_int64 (get_int64 J x)" for x
    using assms(1) by (rule json_library.get_int64_range)
  show ?thesis
    using assms(2) range u64_of_int64
    by (auto simp: parse_message_def accepted_message_def Let_def nat_le_eq_zle
        split: if_splits option.splits)
qed

context json_library
begin

lemma message_members_get:
  "map_of (rev (message_members J m)) ''sequence'' = Some (new_int64 J (sint (sequence m)))"
  "map_of (rev (message_members J m)) ''id'' = Some (new_string J (c_str (message_id m)))"
  "map_of (rev (message_members J m)) ''callsign'' = Some (new_string J (c_str (callsign m)))"
  "map_of (rev (message_members J m)) ''channel'' = Some (new_string J (c_str (channel m)))"
  "map_of (rev (message_members J m)) ''created_at_ms'' = Some (new_int64 J (created_at_ms m))"
  "map_of (rev (message_members J m)) ''body'' = Some (new_string_len J (body m))"
  "map_of (rev (message_members J m)) ''origin'' = Some (new_string J (c_str (origin m)))"
  by (simp_all add: message_members_def)

lemma int64_of_sequence:
  assumes "unat (sequence m) < 2 ^ 63"
  shows "object_is_type J (new_int64 J (sint (sequence m))) json_type_int"
    and "get_int64 J (new_int64 J (sint (sequence m))) = int (unat (sequence m))"
proof -
  have "is_int64 (int (unat (sequence m)))"
    using assms of_nat_less_iff [where 'a = int, of "unat (sequence m)" "2 ^ 63"]
    by (auto simp: is_int64_def int64_min_def int64_max_def intro: order_trans [OF _ uint_ge_0])
  then show "object_is_type J (new_int64 J (sint (sequence m))) json_type_int"
    and "get_int64 J (new_int64 J (sint (sequence m))) = int (unat (sequence m))"
    using new_int64_ok sint_of_small(1) [OF assms] by simp_all
qed

lemma parse_message_to_json:
  assumes m: "accepted_message m" and v: "message_to_json J m = Inr v"
  shows "parse_message J v =
    (if c_str (message_id m) = [] \<or> c_str (origin m) = [] \<or> c_str (callsign m) = [] then None
     else Some (truncated m))"
proof -
  obtain w where w: "build_object J (message_members J m) = Inr w"
      "object_is_type J w json_type_object"
      "\<And>k. object_get_ex J w k = map_of (rev (message_members J m)) k"
    using build_object_ok [of "message_members J m"] by blast
  have vw: "v = w" using v w(1) by (simp add: message_to_json_def)
  note mm = message_members_get [of m, folded w(3)]
  have str: "json_get_string J w ''id'' = Some (c_str (message_id m))"
    "json_get_string J w ''origin'' = Some (c_str (origin m))"
    "json_get_string J w ''callsign'' = Some (c_str (callsign m))"
    "json_get_string J w ''channel'' = Some default_channel"
    "json_get_string J w ''body'' = Some (body m)"
    using m get_cstring_member [OF mm(2)] get_cstring_member [OF mm(7)] get_cstring_member [OF mm(3)]
      get_cstring_member [OF mm(4)] get_string_member [OF mm(6)]
    by (simp_all add: accepted_message_def max_message_bytes_def default_channel_def)
  have seq: "unat (sequence m) < 2 ^ 63" "1 \<le> unat (sequence m)"
    and cr: "is_int64 (created_at_ms m)"
    using m by (simp_all add: accepted_message_def)
  have pos: "\<not> uint (sequence m) < 1"
    using seq(2) of_nat_le_iff [where 'a = int, of 1 "unat (sequence m)"] by simp
  have lens: "length (c_str (message_id m)) \<le> 160" "length (c_str (origin m)) \<le> 64"
    "length (c_str (callsign m)) \<le> 64"
    using m length_c_str [of "message_id m"] length_c_str [of "origin m"] length_c_str [of "callsign m"]
    by (auto simp: accepted_message_def)
  show ?thesis
    unfolding vw parse_message_def
    using w(2) str mm(1,5) int64_of_sequence [OF seq(1)] new_int64_ok [OF cr] lens seq pos m
    by (cases m) (auto simp: accepted_message_def truncated_def default_channel_def Let_def)
qed

end

text \<open>
  C16: a message that passes the gate and whose id, origin and callsign hold no zero byte is
  unchanged by encoding and decoding.
\<close>

theorem codec_roundtrip:
  assumes "json_library J" and "accepted_message m" and "printable_ids m"
  shows "\<exists>v. message_to_json J m = Inr v \<and> parse_message J v = Some m"
proof -
  obtain v where "build_object J (message_members J m) = Inr v"
    using json_library.build_object_ok [OF assms(1), of "message_members J m"] by blast
  then have v: "message_to_json J m = Inr v" by (simp add: message_to_json_def)
  from json_library.parse_message_to_json [OF assms(1,2) v] assms(2,3)
  have "parse_message J v = Some m"
    by (auto simp: printable_ids_def accepted_message_def)
  with v show ?thesis by blast
qed

section \<open>Examples\<close>

lemma sample_body_utf8 [simp]: "is_valid_utf8 ''hello''"
  by (rule utf8_ascii) (simp add: byte_val_def)

lemma sample_message_accepted:
  "accepted_message (sample_message 1)" "printable_ids (sample_message 1)"
  by (simp_all add: sample_message_def accepted_message_def printable_ids_def default_channel_def
      max_message_bytes_def is_int64_def int64_min_def int64_max_def length_to_string_small)

theorem codec_roundtrip_witness:
  "\<exists>v. message_to_json sample_jsonc (sample_message 1) = Inr v \<and>
     parse_message sample_jsonc v = Some (sample_message 1)"
  by (rule codec_roundtrip [OF sample_jsonc_library sample_message_accepted])

text \<open>
  C17: whatever JSON value a peer sends, a message that \<open>parse_message\<close> returns has a sequence
  number between 1 and \<open>2^63 - 1\<close>, non-empty and bounded id, origin and callsign, the default
  channel and a non-empty valid UTF-8 body of at most 2048 bytes.
\<close>

theorem parse_message_gate:
  assumes "json_library J" and "parse_message J v = Some m"
  shows "accepted_message m"
  using assms by (rule parse_message_accepted)

lemma sample_encodes: "\<exists>v. message_to_json sample_jsonc m = Inr v"
  by (simp add: message_to_json_def build_object_def make_json_object_def sample_jsonc_def json_values_def)

theorem parse_message_gate_witness:
  "accepted_message (sample_message 1)"
proof -
  obtain v where "message_to_json sample_jsonc (sample_message 1) = Inr v"
    using sample_encodes by blast
  from json_library.parse_message_to_json [OF sample_jsonc_library sample_message_accepted(1) this]
  have "parse_message sample_jsonc v = Some (sample_message 1)"
    using sample_message_accepted by (auto simp: printable_ids_def accepted_message_def)
  with sample_jsonc_library show ?thesis by (rule parse_message_gate)
qed

text \<open>
  Relaying cuts id, origin and callsign at their first zero byte, because they are encoded
  as C strings although they were decoded with their length: the next node sees a different
  message, or none.
\<close>

theorem relay_truncates:
  assumes "json_library J" and "accepted_message m" and "message_to_json J m = Inr v"
  shows "parse_message J v =
    (if c_str (message_id m) = [] \<or> c_str (origin m) = [] \<or> c_str (callsign m) = [] then None
     else Some (m\<lparr>message_id := c_str (message_id m), origin := c_str (origin m),
       callsign := c_str (callsign m)\<rparr>))"
  using json_library.parse_message_to_json [OF assms] by (simp add: truncated_def)

theorem relay_truncates_witness:
  "\<exists>v. message_to_json sample_jsonc
        ((sample_message 1)\<lparr>origin := [CHR ''a'', CHR 0x00, CHR ''b'']\<rparr>) = Inr v \<and>
     parse_message sample_jsonc v = Some ((sample_message 1)\<lparr>origin := ''a''\<rparr>)"
proof -
  let ?m = "(sample_message 1)\<lparr>origin := [CHR ''a'', CHR 0x00, CHR ''b'']\<rparr>"
  have m: "accepted_message ?m"
    using sample_message_accepted(1) by (simp add: accepted_message_def)
  obtain v where v: "message_to_json sample_jsonc ?m = Inr v"
    using sample_encodes by blast
  have "c_str (message_id ?m) = message_id ?m" "c_str (callsign ?m) = callsign ?m"
    using sample_message_accepted(2) by (simp_all add: printable_ids_def)
  moreover have "c_str (origin ?m) = ''a''" by (simp add: c_str_def)
  ultimately show ?thesis
    using relay_truncates [OF sample_jsonc_library m v] v m
    by (auto simp: accepted_message_def)
qed

end
