(* ===== verification/Les_Registry.thy ===== *)
theory Les_Registry
  imports Les_Types
begin

text \<open>
  \<open>peer_registry.cpp\<close>.  \<open>peers_\<close> is a \<open>std::unordered_map\<close>: an association list with
  distinct keys whose order stands for the container's iteration order, which the language
  leaves open; the results below hold for every order.  \<open>std::ranges::sort\<close> by node id is
  \<open>sort_key\<close>.  The locale \<open>peer_directory\<close> is the contract the discovery, replication, sync
  and HTTP components rely on.
\<close>

type_synonym PeerRegistry = "(bytes \<times> Peer) list"

definition peer_timeout_ms :: int where
  "peer_timeout_ms = 20000"

definition update :: "Peer \<Rightarrow> PeerRegistry \<Rightarrow> PeerRegistry" where
  "update peer peers = insert_or_assign (peer_node_id peer) peer peers"

definition is_active :: "int \<Rightarrow> Peer \<Rightarrow> bool" where
  "is_active now_ms peer =
     (let age_ms = now_ms - last_seen_ms peer in age_ms \<ge> 0 \<and> age_ms \<le> peer_timeout_ms)"

definition active_peers :: "int \<Rightarrow> PeerRegistry \<Rightarrow> Peer list" where
  "active_peers now_ms peers = sort_key peer_node_id (filter (is_active now_ms) (map snd peers))"

text \<open>Every entry is stored under the id of its peer, and no id twice.\<close>

definition registry_inv :: "PeerRegistry \<Rightarrow> bool" where
  "registry_inv peers \<longleftrightarrow> distinct (map fst peers) \<and> (\<forall>(k, p) \<in> set peers. k = peer_node_id p)"

section \<open>The container\<close>

lemma registry_inv_Nil [simp]: "registry_inv []"
  by (simp add: registry_inv_def)

lemma registry_inv_update: "registry_inv peers \<Longrightarrow> registry_inv (update p peers)"
  by (auto simp: registry_inv_def update_def fst_insert_or_assign set_insert_or_assign)

lemma registry_keys:
  assumes "registry_inv peers"
  shows "distinct (map peer_node_id (filter P (map snd peers)))"
proof -
  have "map peer_node_id (map snd peers) = map fst peers"
    using assms by (auto simp: registry_inv_def)
  then have "distinct (map peer_node_id (map snd peers))"
    using assms by (simp add: registry_inv_def del: map_map)
  then show ?thesis by (rule distinct_map_filter)
qed

lemma map_of_iff: "registry_inv peers \<Longrightarrow> map_of peers k = Some p \<longleftrightarrow> (k, p) \<in> set peers"
  by (simp add: registry_inv_def map_of_eq_Some_iff)

lemma active_peers_iff:
  "registry_inv peers \<Longrightarrow>
   p \<in> set (active_peers now peers) \<longleftrightarrow> map_of peers (peer_node_id p) = Some p \<and> is_active now p"
  by (force simp: active_peers_def map_of_iff registry_inv_def)

lemma active_peers_sorted:
  assumes "registry_inv peers"
  shows "sorted_wrt (<) (map peer_node_id (active_peers now peers))"
proof -
  have "distinct (map peer_node_id (active_peers now peers))"
    using registry_keys [OF assms, of "is_active now"] by (simp add: active_peers_def distinct_map)
  moreover have "sorted (map peer_node_id (active_peers now peers))"
    by (simp add: active_peers_def)
  ultimately show ?thesis by (simp add: strict_sorted_iff)
qed

lemma active_peers_order_independent:
  assumes "registry_inv peers" and "mset peers = mset peers'"
  shows "active_peers now peers = active_peers now peers'"
  unfolding active_peers_def
proof (rule sort_key_unique)
  show "mset (filter (is_active now) (map snd peers)) = mset (filter (is_active now) (map snd peers'))"
    using assms(2) by (simp add: mset_map)
  show "distinct (map peer_node_id (filter (is_active now) (map snd peers)))"
    using assms(1) by (rule registry_keys)
qed

section \<open>The contract of a peer directory\<close>

text \<open>
  What the clients of the registry rely on: an update replaces the entry of its id and no
  other, and the active peers are exactly the current entries that are fresh, in ascending
  order of id.
\<close>

locale peer_directory =
  fixes upd :: "'p \<Rightarrow> 'r \<Rightarrow> 'r"
    and active :: "int \<Rightarrow> 'r \<Rightarrow> 'p list"
    and entry :: "'r \<Rightarrow> 'k::linorder \<Rightarrow> 'p option"
    and key :: "'p \<Rightarrow> 'k"
    and fresh :: "int \<Rightarrow> 'p \<Rightarrow> bool"
    and inv :: "'r \<Rightarrow> bool"
    and none :: 'r
  assumes inv_none: "inv none"
    and entry_none: "entry none k = None"
    and inv_upd: "inv r \<Longrightarrow> inv (upd p r)"
    and entry_upd: "inv r \<Longrightarrow> entry (upd p r) = (entry r)(key p \<mapsto> p)"
    and active_iff: "inv r \<Longrightarrow> p \<in> set (active now r) \<longleftrightarrow> entry r (key p) = Some p \<and> fresh now p"
    and active_ascending: "inv r \<Longrightarrow> sorted_wrt (<) (map key (active now r))"
begin

lemma inv_run: "inv r \<Longrightarrow> inv (fold upd ps r)"
  by (induction ps arbitrary: r) (simp_all add: inv_upd)

lemma entry_run:
  "inv r \<Longrightarrow> entry (fold upd ps r) k =
     (case find (\<lambda>p. key p = k) (rev ps) of None \<Rightarrow> entry r k | Some p \<Rightarrow> Some p)"
proof (induction ps rule: rev_induct)
  case Nil
  then show ?case by simp
next
  case (snoc p ps)
  then show ?case by (simp add: entry_upd inv_run)
qed

lemma active_run:
  "p \<in> set (active now (fold upd ps none)) \<longleftrightarrow>
     find (\<lambda>q. key q = key p) (rev ps) = Some p \<and> fresh now p"
  by (auto simp: active_iff inv_run inv_none entry_run entry_none split: option.splits)

lemma one_entry_per_key: "inv r \<Longrightarrow> distinct (map key (active now r))"
  using active_ascending by (simp add: strict_sorted_iff)

lemma upd_keeps_others:
  "inv r \<Longrightarrow> key q \<noteq> key p \<Longrightarrow> q \<in> set (active now (upd p r)) \<longleftrightarrow> q \<in> set (active now r)"
  by (simp add: active_iff inv_upd entry_upd)

lemma upd_replaces:
  "inv r \<Longrightarrow> key q = key p \<Longrightarrow> q \<in> set (active now (upd p r)) \<longleftrightarrow> q = p \<and> fresh now p"
  by (auto simp: active_iff inv_upd entry_upd)

end

interpretation registry: peer_directory update active_peers map_of peer_node_id is_active registry_inv "[]"
proof unfold_locales
  show "map_of (update p r) = (map_of r)(peer_node_id p \<mapsto> p)" for p r
    by (simp add: update_def map_of_insert_or_assign)
qed (simp_all add: registry_inv_update active_peers_iff active_peers_sorted)

section \<open>Properties\<close>

text \<open>
  C27: after any sequence of announcements, a peer is active exactly when its entry is the last
  one announced under its id and its age is between 0 and 20 seconds; the list is strictly
  ascending by node id.
\<close>

theorem active_peers_run:
  "(p \<in> set (active_peers now (fold update ps [])) \<longleftrightarrow>
     find (\<lambda>q. peer_node_id q = peer_node_id p) (rev ps) = Some p \<and>
     last_seen_ms p \<le> now \<and> now \<le> last_seen_ms p + 20000) \<and>
   sorted_wrt (<) (map peer_node_id (active_peers now (fold update ps [])))"
proof
  show "sorted_wrt (<) (map peer_node_id (active_peers now (fold update ps [])))"
    by (intro registry.active_ascending registry.inv_run registry.inv_none)
  show "p \<in> set (active_peers now (fold update ps [])) \<longleftrightarrow>
     find (\<lambda>q. peer_node_id q = peer_node_id p) (rev ps) = Some p \<and>
     last_seen_ms p \<le> now \<and> now \<le> last_seen_ms p + 20000"
    by (auto simp: registry.active_run is_active_def peer_timeout_ms_def Let_def)
qed

text \<open>
  The list of active peers does not depend on the iteration order of the hash map, so
  \<open>std::ranges::sort\<close>, which is not stable, has exactly one possible result.
\<close>

theorem active_peers_deterministic:
  assumes "registry_inv peers" and "mset peers = mset peers'"
  shows "active_peers now peers = active_peers now peers'"
  using assms by (rule active_peers_order_independent)

theorem active_peers_deterministic_witness:
  "active_peers 5 [(''a'', \<lparr>peer_node_id = ''a'', peer_callsign = ''A'', address = ''x'', http_port = 1,
       peer_app_version = ''1'', last_seen_ms = 3\<rparr>),
     (''b'', \<lparr>peer_node_id = ''b'', peer_callsign = ''B'', address = ''y'', http_port = 2,
       peer_app_version = ''1'', last_seen_ms = 4\<rparr>)] =
   active_peers 5 [(''b'', \<lparr>peer_node_id = ''b'', peer_callsign = ''B'', address = ''y'', http_port = 2,
       peer_app_version = ''1'', last_seen_ms = 4\<rparr>),
     (''a'', \<lparr>peer_node_id = ''a'', peer_callsign = ''A'', address = ''x'', http_port = 1,
       peer_app_version = ''1'', last_seen_ms = 3\<rparr>)]"
  by (rule active_peers_deterministic) (simp_all add: registry_inv_def)

end
