(* ===== verification/Les_Clock.thy ===== *)
theory Les_Clock
  imports Les_Prelude
begin

text \<open>
  \<open>clock.hpp\<close>: the wall clock of the host and the process-wide offset that is added to it.
  \<open>system_ms\<close> is what \<open>std::chrono::system_clock\<close> reads; \<open>clock_settime\<close> is the operating
  system's, a parameter that says whether the call succeeds on a \<open>timespec\<close>
  (seconds, nanoseconds).  On success the host clock reads the time that was set.
\<close>

record Clock =
  system_ms :: int
  time_offset_ms :: int

type_synonym timespec = "int \<times> int"

definition system_time_ms :: "Clock \<Rightarrow> int" where
  "system_time_ms c = system_ms c"

definition current_time_ms :: "Clock \<Rightarrow> int" where
  "current_time_ms c = system_time_ms c + time_offset_ms c"

definition current_time_offset_ms :: "Clock \<Rightarrow> int" where
  "current_time_offset_ms c = time_offset_ms c"

definition set_time_offset_ms :: "int \<Rightarrow> Clock \<Rightarrow> Clock" where
  "set_time_offset_ms offset_ms c = c\<lparr>time_offset_ms := offset_ms\<rparr>"

definition host_time :: "timespec \<Rightarrow> int" where
  "host_time ts = fst ts * 1000 + snd ts div 1000000"

definition set_system_time_ms :: "(timespec \<Rightarrow> bool) \<Rightarrow> int \<Rightarrow> Clock \<Rightarrow> bool \<times> Clock" where
  "set_system_time_ms clock_settime timestamp_ms c =
     (if timestamp_ms < 0 then (False, c)
      else
        let timestamp = (timestamp_ms div 1000, (timestamp_ms mod 1000) * 1000000) in
        if \<not> clock_settime timestamp then (False, c)
        else (True, set_time_offset_ms 0 (c\<lparr>system_ms := host_time timestamp\<rparr>)))"

text \<open>Time that passes on the host while no callback runs.\<close>

definition elapse :: "nat \<Rightarrow> Clock \<Rightarrow> Clock" where
  "elapse d c = c\<lparr>system_ms := system_ms c + int d\<rparr>"

section \<open>Facts\<close>

lemma host_time_timespec:
  "0 \<le> t \<Longrightarrow> host_time (t div 1000, (t mod 1000) * 1000000) = t"
  by (simp add: host_time_def)

lemma set_system_time_ms_True:
  "set_system_time_ms f t c = (True, c') \<Longrightarrow> system_ms c' = t \<and> time_offset_ms c' = 0"
  by (auto simp: set_system_time_ms_def set_time_offset_ms_def Let_def host_time_timespec split: if_splits)

lemma set_system_time_ms_False: "set_system_time_ms f t c = (False, c') \<Longrightarrow> c' = c"
  by (auto simp: set_system_time_ms_def Let_def split: if_splits)

lemma timespec_normalised:
  fixes t :: int
  shows "0 \<le> (t mod 1000) * 1000000 \<and> (t mod 1000) * 1000000 < 1000000000"
  using pos_mod_sign [of 1000 t] pos_mod_bound [of 1000 t] by linarith

end
