(* ===== verification/Les_Evhttp.thy ===== *)
theory Les_Evhttp
  imports Les_Types
begin

text \<open>
  libevent as the sources use it.  The library is a parameter: its effects are the trace of the
  calls the program makes (\<open>evcall\<close>), its answers are the fields of \<open>libevent\<close>.  Requests and
  connections are handles.  The outcome of an outgoing request is a function of the handle its
  connection got, so one parameter covers every sequence of outcomes.

  The second part is the code that the three HTTP clients of the program share: \<open>broadcast\<close>
  (\<open>replication_service.cpp\<close>), \<open>synchronize\<close> and \<open>send_batch\<close> (\<open>sync_service.cpp\<close>).
\<close>

type_synonym request = nat
type_synonym conn = nat

datatype evhttp_cmd_type = EVHTTP_REQ_GET | EVHTTP_REQ_POST | EVHTTP_REQ_HEAD | EVHTTP_REQ_PUT
  | EVHTTP_REQ_DELETE | EVHTTP_REQ_OTHER nat

definition HTTP_OK :: int where "HTTP_OK = 200"
definition HTTP_BADREQUEST :: int where "HTTP_BADREQUEST = 400"
definition HTTP_NOTFOUND :: int where "HTTP_NOTFOUND = 404"
definition HTTP_BADMETHOD :: int where "HTTP_BADMETHOD = 405"
definition HTTP_INTERNAL :: int where "HTTP_INTERNAL = 500"

lemmas http_codes = HTTP_OK_def HTTP_BADREQUEST_def HTTP_NOTFOUND_def HTTP_BADMETHOD_def HTTP_INTERNAL_def

datatype evcall =
    AddHeader request bytes bytes
  | BufferAdd request bytes
  | RequestOwn request
  | SetCloseCb conn bool
  | SendReplyStart request int bytes
  | SendReplyChunk request
  | SendReply request int bytes bytes
  | SendError request int bytes
  | RequestFree request
  | ConnectionNew conn bytes u16
  | SetLocalAddress conn bytes
  | RequestNew request
  | MakeRequest conn request bytes bool
  | ConnectionFree conn

text \<open>
  What happens to an outgoing request: no connection object, no request object, refused by
  \<open>evhttp_make_request\<close>, or under way.
\<close>

datatype client_outcome = NoConnection | NoRequest | Refused | Sent

datatype file_result = CannotOpen | ReadFailed | Contents bytes

record libevent =
  outcome :: "nat \<Rightarrow> client_outcome"
  evbuffer_ok :: "request \<Rightarrow> bool"
  uri_parse :: "bytes \<Rightarrow> bytes option option"
  web_root :: bytes
  read_file :: "bytes \<Rightarrow> file_result"

section \<open>Incoming requests\<close>

record HttpRequest =
  handle :: request
  connection :: conn
  command :: evhttp_cmd_type
  uri :: "bytes option"
  content_type :: "bytes option"
  input :: bytes
  copied :: int

section \<open>The shared client code\<close>

text \<open>What the callback of an outgoing request was registered for.\<close>

datatype callback = ReplicationResponse | SummaryResponse | BatchResponse

record RequestContext =
  ctx_connection :: conn
  ctx_callback :: callback
  ctx_address :: bytes
  ctx_port :: u16

definition post_headers :: "request \<Rightarrow> (bytes \<times> bytes) list \<Rightarrow> evcall list" where
  "post_headers r headers = map (\<lambda>(k, v). AddHeader r k v) headers"

text \<open>
  One attempt: the calls made, and the context left to the callback when the request is under
  way.  The connection and the request get the handle \<open>h\<close>.
\<close>

definition post_request ::
  "libevent \<Rightarrow> bytes \<Rightarrow> callback \<Rightarrow> (bytes \<times> bytes) list \<Rightarrow> bytes \<Rightarrow> bytes \<Rightarrow> bytes \<Rightarrow> u16 \<Rightarrow> nat \<Rightarrow>
     evcall list \<times> RequestContext option" where
  "post_request L local_address cb headers path payload addr port h =
     (if outcome L h = NoConnection then ([], None)
      else
        let opened = ConnectionNew h (c_str addr) port #
              (if local_address \<noteq> [] then [SetLocalAddress h (c_str local_address)] else []);
            context = \<lparr>ctx_connection = h, ctx_callback = cb, ctx_address = addr, ctx_port = port\<rparr> in
        if outcome L h = NoRequest then (opened @ [ConnectionFree h], None)
        else
          let prepared = opened @ [RequestNew h] @ post_headers h headers @ [BufferAdd h payload] in
          if outcome L h = Refused
          then (prepared @ [MakeRequest h h path False, RequestFree h, ConnectionFree h], None)
          else (prepared @ [MakeRequest h h path True], Some context))"

fun post_all :: "(Peer \<Rightarrow> nat \<Rightarrow> evcall list \<times> RequestContext option) \<Rightarrow> Peer list \<Rightarrow> nat \<Rightarrow>
    evcall list \<times> RequestContext list \<times> nat" where
  "post_all post [] h = ([], [], h)"
| "post_all post (p # ps) h =
     (case post p h of (cs, ctx) \<Rightarrow>
        case post_all post ps (Suc h) of (cs', ctxs, h') \<Rightarrow>
          (cs @ cs', (case ctx of None \<Rightarrow> ctxs | Some c \<Rightarrow> c # ctxs), h'))"

section \<open>Connections and requests are released\<close>

fun opens :: "conn \<Rightarrow> evcall \<Rightarrow> bool" where
  "opens c (ConnectionNew c' a p) = (c' = c)"
| "opens c _ = False"

fun closes :: "conn \<Rightarrow> evcall \<Rightarrow> bool" where
  "closes c (ConnectionFree c') = (c' = c)"
| "closes c _ = False"

text \<open>\<open>evhttp_make_request\<close> frees the request itself when it fails.\<close>

fun frees_request :: "request \<Rightarrow> evcall \<Rightarrow> bool" where
  "frees_request r (RequestFree r') = (r' = r)"
| "frees_request r (MakeRequest c r' p ok) = (r' = r \<and> \<not> ok)"
| "frees_request r _ = False"

definition occurs :: "('a \<Rightarrow> bool) \<Rightarrow> 'a list \<Rightarrow> nat" where
  "occurs P xs = length (filter P xs)"

lemma occurs_simps [simp]:
  "occurs P [] = 0" "occurs P (x # xs) = (if P x then 1 else 0) + occurs P xs"
  "occurs P (xs @ ys) = occurs P xs + occurs P ys"
  by (simp_all add: occurs_def)

lemma occurs_post_headers [simp]:
  "occurs (opens c) (post_headers r hs) = 0" "occurs (closes c) (post_headers r hs) = 0"
  "occurs (frees_request q) (post_headers r hs) = 0"
  by (induction hs) (auto simp: post_headers_def)

lemma post_request_balance:
  "post_request L la cb hs path pl addr port h = (cs, ctx) \<Longrightarrow>
   occurs (opens c) cs = occurs (closes c) cs + (case ctx of None \<Rightarrow> 0 | Some x \<Rightarrow> if ctx_connection x = c then 1 else 0)"
  by (cases "outcome L h") (auto simp: post_request_def Let_def)

lemma post_all_balance:
  assumes "\<And>p h cs ctx. post p h = (cs, ctx) \<Longrightarrow>
      occurs (opens c) cs = occurs (closes c) cs + (case ctx of None \<Rightarrow> 0 | Some x \<Rightarrow> if ctx_connection x = c then 1 else 0)"
    and "post_all post ps h = (cs, ctxs, h')"
  shows "occurs (opens c) cs = occurs (closes c) cs + occurs (\<lambda>x. ctx_connection x = c) ctxs"
  using assms(2)
proof (induction ps arbitrary: h cs ctxs h')
  case Nil
  then show ?case by simp
next
  case (Cons p ps)
  obtain cs1 ctx where a: "post p h = (cs1, ctx)" by fastforce
  obtain cs2 ctxs2 h2 where b: "post_all post ps (Suc h) = (cs2, ctxs2, h2)" by (metis prod_cases3)
  show ?case
    using Cons.IH [OF b] assms(1) [OF a] Cons.prems a b by (auto split: option.splits)
qed

lemma post_all_count: "post_all post ps h = (cs, ctxs, h') \<Longrightarrow> h' = h + length ps"
  by (induction ps arbitrary: h cs ctxs h') (fastforce split: prod.splits)+

end
