(* ===== verification/Les_Http.thy ===== *)
theory Les_Http
  imports Les_Evhttp
begin

text \<open>
  \<open>http.cpp\<close>: sending a response, reading the path and the body of a request, and the check of
  its content type.  A response is the list of library calls that make it up.  The macro
  \<open>LESCHAT_WEB_ROOT\<close>, which the build sets, is the field \<open>web_root\<close> beside the answers of the
  libraries.
\<close>

definition html_type :: bytes where "html_type = ''text/html; charset=utf-8''"

definition security_policy :: bytes where
  "security_policy = ''default-src '' @ [CHR 0x27] @ ''self'' @ [CHR 0x27] @ ''; '' @
     ''script-src '' @ [CHR 0x27] @ ''self'' @ [CHR 0x27] @ ''; '' @
     ''style-src '' @ [CHR 0x27] @ ''self'' @ [CHR 0x27] @ ''; '' @
     ''connect-src '' @ [CHR 0x27] @ ''self'' @ [CHR 0x27] @ ''; '' @
     ''img-src '' @ [CHR 0x27] @ ''self'' @ [CHR 0x27] @ ''; '' @
     ''object-src '' @ [CHR 0x27] @ ''none'' @ [CHR 0x27] @ ''; '' @
     ''base-uri '' @ [CHR 0x27] @ ''none'' @ [CHR 0x27]"

definition send_response :: "libevent \<Rightarrow> request \<Rightarrow> int \<Rightarrow> bytes \<Rightarrow> bytes \<Rightarrow> bytes \<Rightarrow> evcall list" where
  "send_response L r status reason ctype bdy =
     (if \<not> evbuffer_ok L r
      then [SendError r HTTP_INTERNAL ''Unable to allocate response buffer'']
      else
        [AddHeader r ''Content-Type'' (c_str ctype),
         AddHeader r ''Cache-Control'' ''no-store'',
         AddHeader r ''X-Content-Type-Options'' ''nosniff''] @
        (if ctype = html_type then [AddHeader r ''Content-Security-Policy'' security_policy] else []) @
        [SendReply r status reason bdy])"

definition send_json :: "libevent \<Rightarrow> request \<Rightarrow> int \<Rightarrow> bytes \<Rightarrow> bytes \<Rightarrow> evcall list" where
  "send_json L r status reason bdy =
     send_response L r status reason ''application/json; charset=utf-8'' bdy"

definition load_web_asset :: "libevent \<Rightarrow> bytes \<Rightarrow> bytes result" where
  "load_web_asset L filename =
     (let path = web_root L @ ''/'' @ filename in
      case read_file L path of
        CannotOpen \<Rightarrow> Inl (RuntimeError (''Unable to open web asset: '' @ path))
      | ReadFailed \<Rightarrow> Inl (RuntimeError (''Unable to read web asset: '' @ path))
      | Contents text \<Rightarrow> Inr text)"

definition send_web_asset :: "libevent \<Rightarrow> request \<Rightarrow> bytes \<Rightarrow> bytes \<Rightarrow> evcall list result" where
  "send_web_asset L r filename ctype =
     result_bind (load_web_asset L filename) (\<lambda>text. Inr (send_response L r HTTP_OK ''OK'' ctype text))"

definition request_path :: "libevent \<Rightarrow> HttpRequest \<Rightarrow> bytes" where
  "request_path L request =
     (case uri request of
        None \<Rightarrow> []
      | Some uri_text \<Rightarrow>
          (case uri_parse L uri_text of
             None \<Rightarrow> []
           | Some path_text \<Rightarrow> (case path_text of None \<Rightarrow> ''/'' | Some path \<Rightarrow> path)))"

definition read_request_body :: "HttpRequest \<Rightarrow> nat \<Rightarrow> bytes result" where
  "read_request_body request limit =
     (let len = length (input request) in
      if len > limit then Inl (LengthError ''request_too_large'')
      else if len \<noteq> 0 \<and> (copied request < 0 \<or> nat (copied request) \<noteq> len)
        then Inl (RuntimeError ''Unable to read request body'')
      else Inr (input request))"

text \<open>\<open>find(...) == 0\<close>: the header starts with the text.\<close>

fun starts_with :: "bytes \<Rightarrow> bytes \<Rightarrow> bool" where
  "starts_with [] s = True"
| "starts_with (c # p) [] = False"
| "starts_with (c # p) (d # s) = (c = d \<and> starts_with p s)"

definition has_json_content_type :: "HttpRequest \<Rightarrow> bool" where
  "has_json_content_type request =
     (case content_type request of
        None \<Rightarrow> False
      | Some text \<Rightarrow> starts_with ''application/json'' (c_str text))"

section \<open>Facts\<close>

text \<open>The answers a list of calls gives to a request.\<close>

fun answers :: "request \<Rightarrow> evcall \<Rightarrow> bool" where
  "answers r (SendReply r' st reason b) = (r' = r)"
| "answers r (SendError r' st reason) = (r' = r)"
| "answers r (SendReplyStart r' st reason) = (r' = r)"
| "answers r _ = False"

lemma send_response_once [simp]:
  "occurs (answers r) (send_response L r st reason ctype b) = 1"
  "r' \<noteq> r \<Longrightarrow> occurs (answers r') (send_response L r st reason ctype b) = 0"
  by (auto simp: send_response_def)

lemma send_json_once [simp]:
  "occurs (answers r) (send_json L r st reason b) = 1"
  "r' \<noteq> r \<Longrightarrow> occurs (answers r') (send_json L r st reason b) = 0"
  by (simp_all add: send_json_def)

text \<open>The status line a list of calls ends with.\<close>

fun reply_of :: "evcall list \<Rightarrow> (int \<times> bytes) option" where
  "reply_of [] = None"
| "reply_of (SendReply r st reason b # cs) = Some (st, b)"
| "reply_of (SendError r st reason # cs) = Some (st, [])"
| "reply_of (_ # cs) = reply_of cs"

lemma reply_of_json [simp]:
  "reply_of (send_json L r st reason b) = Some (if evbuffer_ok L r then (st, b) else (HTTP_INTERNAL, []))"
  by (simp add: send_json_def send_response_def html_type_def)

lemma reply_of_html [simp]:
  "reply_of (send_response L r st reason ctype b) =
     Some (if evbuffer_ok L r then (st, b) else (HTTP_INTERNAL, []))"
  by (simp add: send_response_def)

lemma read_request_body_length: "read_request_body q limit = Inr b \<Longrightarrow> b = input q \<and> length b \<le> limit"
  by (auto simp: read_request_body_def Let_def split: if_splits)

end
