(* ===== verification/Les_Events.thy ===== *)
theory Les_Events
  imports Les_Http
begin

text \<open>
  \<open>event_stream.cpp\<close>: the subscribers of \<open>GET /api/v1/events\<close>.  The state is the vector
  \<open>requests_\<close>, each request with the connection libevent reports for it; every operation gives
  the library calls it makes.  Shown below: the calls never touch a freed request, every owned
  request is freed exactly once, and a reader of the byte stream sees exactly the published
  events in order.
\<close>

type_synonym EventStream = "(request \<times> conn) list"

definition ready_event :: bytes where
  "ready_event = ''event: ready'' @ [CHR 0x0A] @ ''data: {}'' @ [CHR 0x0A, CHR 0x0A]"

definition event_payload :: "bytes \<Rightarrow> bytes \<Rightarrow> bytes" where
  "event_payload event_name json_data =
     ''event: '' @ event_name @ [CHR 0x0A] @ ''data: '' @ json_data @ [CHR 0x0A, CHR 0x0A]"

definition subscribe :: "request \<Rightarrow> conn \<Rightarrow> EventStream \<Rightarrow> EventStream \<times> evcall list" where
  "subscribe r c requests =
     (requests @ [(r, c)],
      [AddHeader r ''Content-Type'' ''text/event-stream; charset=utf-8'',
       AddHeader r ''Cache-Control'' ''no-store'',
       AddHeader r ''X-Content-Type-Options'' ''nosniff'',
       AddHeader r ''Connection'' ''keep-alive'',
       RequestOwn r,
       SetCloseCb c True,
       SendReplyStart r HTTP_OK ''OK'',
       BufferAdd r ready_event,
       SendReplyChunk r])"

definition publish :: "bytes \<Rightarrow> bytes \<Rightarrow> EventStream \<Rightarrow> evcall list" where
  "publish event_name json_data requests =
     (let payload = event_payload event_name json_data in
      concat (map (\<lambda>(r, c). [BufferAdd r payload, SendReplyChunk r]) requests))"

fun handle_close :: "conn \<Rightarrow> EventStream \<Rightarrow> EventStream \<times> evcall list" where
  "handle_close c [] = ([], [])"
| "handle_close c ((r, c') # requests) =
     (if c' = c then (requests, [RequestFree r])
      else case handle_close c requests of (requests', cs) \<Rightarrow> ((r, c') # requests', cs))"

definition destroy_stream :: "EventStream \<Rightarrow> evcall list" where
  "destroy_stream requests = concat (map (\<lambda>(r, c). [SetCloseCb c False, RequestFree r]) requests)"

section \<open>Histories\<close>

datatype stream_event = Subscribe request conn | Publish bytes bytes | Closed conn

fun stream_apply :: "stream_event \<Rightarrow> EventStream \<Rightarrow> EventStream \<times> evcall list" where
  "stream_apply (Subscribe r c) s = subscribe r c s"
| "stream_apply (Publish n d) s = (s, publish n d s)"
| "stream_apply (Closed c) s = handle_close c s"

fun request_of :: "evcall \<Rightarrow> request option" where
  "request_of (AddHeader r k v) = Some r"
| "request_of (BufferAdd r b) = Some r"
| "request_of (RequestOwn r) = Some r"
| "request_of (SendReplyStart r st reason) = Some r"
| "request_of (SendReplyChunk r) = Some r"
| "request_of (SendReply r st reason b) = Some r"
| "request_of (SendError r st reason) = Some r"
| "request_of (RequestFree r) = Some r"
| "request_of (RequestNew r) = Some r"
| "request_of (MakeRequest c r p ok) = Some r"
| "request_of _ = None"

definition freed :: "evcall list \<Rightarrow> request set" where
  "freed cs = {r. RequestFree r \<in> set cs}"

definition touched :: "evcall list \<Rightarrow> request set" where
  "touched cs = {r. Some r \<in> request_of ` set cs}"

text \<open>No call on a request after it was freed; in particular no second free.\<close>

fun safe :: "request list \<Rightarrow> evcall list \<Rightarrow> bool" where
  "safe dead [] = True"
| "safe dead (RequestFree r # cs) = (r \<notin> set dead \<and> safe (r # dead) cs)"
| "safe dead (c # cs) = ((case request_of c of None \<Rightarrow> True | Some r \<Rightarrow> r \<notin> set dead) \<and> safe dead cs)"

text \<open>
  What libevent guarantees of its callbacks: a request it hands over is a new object, and its
  connection carries no other request at that time.
\<close>

inductive stream_reach :: "EventStream \<Rightarrow> evcall list \<Rightarrow> bool" where
  start: "stream_reach [] []"
| subscribed: "stream_reach s t \<Longrightarrow> r \<notin> touched t \<Longrightarrow> c \<notin> snd ` set s \<Longrightarrow>
    stream_apply (Subscribe r c) s = (s', cs) \<Longrightarrow> stream_reach s' (t @ cs)"
| published: "stream_reach s t \<Longrightarrow> stream_apply (Publish n d) s = (s', cs) \<Longrightarrow> stream_reach s' (t @ cs)"
| closed: "stream_reach s t \<Longrightarrow> stream_apply (Closed c) s = (s', cs) \<Longrightarrow> stream_reach s' (t @ cs)"

section \<open>Memory safety\<close>

lemma freed_simps [simp]:
  "freed [] = {}" "freed (cs @ ds) = freed cs \<union> freed ds"
  by (auto simp: freed_def)

lemma freed_Cons: "freed (c # cs) = (case c of RequestFree r \<Rightarrow> {r} | _ \<Rightarrow> {}) \<union> freed cs"
  by (cases c) (auto simp: freed_def)

lemma touched_simps [simp]:
  "touched [] = {}" "touched (cs @ ds) = touched cs \<union> touched ds"
  by (auto simp: touched_def)

lemma touched_Cons: "touched (c # cs) = set_option (request_of c) \<union> touched cs"
  by (cases "request_of c") (auto simp: touched_def)

lemma freed_touched: "freed cs \<subseteq> touched cs"
  by (force simp: freed_def touched_def)

lemma safe_Cons:
  "safe dead (c # cs) \<longleftrightarrow> (case request_of c of None \<Rightarrow> True | Some r \<Rightarrow> r \<notin> set dead) \<and>
     safe ((case c of RequestFree r \<Rightarrow> [r] | _ \<Rightarrow> []) @ dead) cs"
  by (cases c) auto

lemma safe_cong: "set dead = set dead' \<Longrightarrow> safe dead cs = safe dead' cs"
proof (induction cs arbitrary: dead dead')
  case Nil
  then show ?case by simp
next
  case (Cons c cs)
  have "set ((case c of RequestFree r \<Rightarrow> [r] | _ \<Rightarrow> []) @ dead) = set ((case c of RequestFree r \<Rightarrow> [r] | _ \<Rightarrow> []) @ dead')"
    using Cons.prems by simp
  from Cons.IH [OF this] show ?case
    using Cons.prems by (simp only: safe_Cons split: option.splits)
qed

fun free_list :: "evcall list \<Rightarrow> request list" where
  "free_list [] = []"
| "free_list (c # cs) = (case c of RequestFree r \<Rightarrow> [r] | _ \<Rightarrow> []) @ free_list cs"

lemma set_free_list [simp]: "set (free_list cs) = freed cs"
  by (induction cs) (auto simp: freed_Cons split: evcall.splits)

lemma safe_append: "safe dead (cs @ ds) \<longleftrightarrow> safe dead cs \<and> safe (free_list cs @ dead) ds"
proof (induction cs arbitrary: dead)
  case Nil
  then show ?case by simp
next
  case (Cons c cs)
  have "safe (free_list cs @ (case c of RequestFree r \<Rightarrow> [r] | _ \<Rightarrow> []) @ dead) ds =
      safe (free_list (c # cs) @ dead) ds"
    by (rule safe_cong) auto
  then show ?case
    by (simp only: append_Cons safe_Cons Cons.IH) auto
qed

lemma safe_no_free: "freed cs = {} \<Longrightarrow> touched cs \<inter> set dead = {} \<Longrightarrow> safe dead cs"
proof (induction cs)
  case Nil
  then show ?case by simp
next
  case (Cons c cs)
  then show ?case
    by (cases c) (auto simp: freed_Cons touched_Cons)
qed

lemma publish_simps [simp]:
  "publish n d [] = []"
  "publish n d ((r, c) # s) = BufferAdd r (event_payload n d) # SendReplyChunk r # publish n d s"
  by (simp_all add: publish_def Let_def)

lemma publish_calls:
  "freed (publish n d s) = {}" "touched (publish n d s) = fst ` set s"
proof -
  show "freed (publish n d s) = {}"
    by (auto simp: publish_def freed_def)
  show "touched (publish n d s) = fst ` set s"
    by (induction s) (force simp: touched_Cons)+
qed

lemma subscribe_calls:
  assumes "subscribe r c s = (s', cs)"
  shows "s' = s @ [(r, c)]" "freed cs = {}" "touched cs = {r}" "occurs (\<lambda>x. x = RequestOwn q) cs = of_bool (q = r)"
  using assms by (auto simp: subscribe_def freed_def touched_def)

lemma handle_close_cases:
  "distinct (map fst s) \<Longrightarrow> handle_close c s = (s', cs) \<Longrightarrow>
   (s' = s \<and> cs = [] \<and> c \<notin> snd ` set s) \<or>
   (\<exists>r. (r, c) \<in> set s \<and> cs = [RequestFree r] \<and> distinct (map fst s') \<and> fst ` set s' = fst ` set s - {r} \<and>
     set s' \<subseteq> set s)"
proof (induction c s arbitrary: s' cs rule: handle_close.induct)
  case (1 c)
  then show ?case by simp
next
  case (2 c r c' requests)
  show ?case
  proof (cases "c' = c")
    case True
    then show ?thesis using 2 by (auto simp: image_iff)
  next
    case False
    obtain s2 cs2 where h: "handle_close c requests = (s2, cs2)" by fastforce
    then have s': "s' = (r, c') # s2" "cs = cs2" using 2 False by auto
    have "distinct (map fst requests)" using "2.prems"(1) by simp
    from "2.IH" [OF False this h] show ?thesis
    proof
      assume "s2 = requests \<and> cs2 = [] \<and> c \<notin> snd ` set requests"
      then show ?thesis using s' False by auto
    next
      assume "\<exists>ra. (ra, c) \<in> set requests \<and> cs2 = [RequestFree ra] \<and> distinct (map fst s2) \<and>
        fst ` set s2 = fst ` set requests - {ra} \<and> set s2 \<subseteq> set requests"
      then obtain q where q: "(q, c) \<in> set requests" "cs2 = [RequestFree q]" "distinct (map fst s2)"
          "fst ` set s2 = fst ` set requests - {q}" "set s2 \<subseteq> set requests" by blast
      have "r \<notin> fst ` set requests" using "2.prems"(1) by simp
      moreover have "q \<in> fst ` set requests" using q(1) by force
      ultimately show ?thesis using q s' by (intro disjI2 exI [of _ q]) auto
    qed
  qed
qed

lemma stream_inv:
  "stream_reach s t \<Longrightarrow>
   distinct (map fst s) \<and> safe [] t \<and> fst ` set s \<inter> freed t = {} \<and> fst ` set s \<subseteq> touched t \<and>
   (\<forall>r. occurs (\<lambda>x. x = RequestOwn r) t = occurs (\<lambda>x. x = RequestFree r) t + of_bool (r \<in> fst ` set s))"
proof (induction rule: stream_reach.induct)
  case start
  then show ?case by simp
next
  case (subscribed s t r c s' cs)
  have sub: "subscribe r c s = (s', cs)" using subscribed.hyps by simp
  note f = subscribe_calls [OF sub]
  have r: "r \<notin> fst ` set s" "r \<notin> freed t"
    using subscribed.IH subscribed.hyps(2) freed_touched [of t] by blast+
  have sf: "safe (free_list t @ []) cs"
    using f r by (intro safe_no_free) auto
  have "occurs (\<lambda>x. x = RequestFree q) cs = 0" for q
    using f(2) by (auto simp: occurs_def freed_def filter_empty_conv)
  then show ?case
    using subscribed.IH f r sf by (auto simp: safe_append)
next
  case (published s t n d s' cs)
  then have cs: "s' = s" "cs = publish n d s" by auto
  have sf: "safe (free_list t @ []) cs"
    using published.IH unfolding cs by (intro safe_no_free) (auto simp: publish_calls)
  have "occurs (\<lambda>x. x = RequestFree q) cs = 0" "occurs (\<lambda>x. x = RequestOwn q) cs = 0" for q
    by (auto simp: cs occurs_def publish_def filter_empty_conv)
  then show ?case
    using published.IH cs sf by (auto simp: safe_append publish_calls)
next
  case (closed s t c s' cs)
  have h: "handle_close c s = (s', cs)" using closed.hyps by simp
  have d: "distinct (map fst s)" using closed.IH by blast
  from handle_close_cases [OF d h] show ?case
  proof
    assume "s' = s \<and> cs = [] \<and> c \<notin> snd ` set s"
    then show ?thesis using closed.IH by simp
  next
    assume "\<exists>r. (r, c) \<in> set s \<and> cs = [RequestFree r] \<and> distinct (map fst s') \<and>
      fst ` set s' = fst ` set s - {r} \<and> set s' \<subseteq> set s"
    then obtain r where r: "(r, c) \<in> set s" "cs = [RequestFree r]" "distinct (map fst s')"
        "fst ` set s' = fst ` set s - {r}" by blast
    have rs: "r \<in> fst ` set s" using r(1) by force
    then have "r \<notin> freed t" using closed.IH by blast
    then show ?thesis
      using closed.IH r rs by (auto simp: safe_append freed_Cons)
  qed
qed

lemma destroy_calls:
  "distinct (map fst s) \<Longrightarrow> fst ` set s \<inter> set dead = {} \<Longrightarrow>
   safe dead (destroy_stream s) \<and> (\<forall>r. occurs (\<lambda>x. x = RequestFree r) (destroy_stream s) = of_bool (r \<in> fst ` set s))"
proof (induction s arbitrary: dead)
  case Nil
  then show ?case by (simp add: destroy_stream_def)
next
  case (Cons x s)
  obtain r c where x: "x = (r, c)" by fastforce
  have "safe (r # dead) (destroy_stream s) \<and>
      (\<forall>q. occurs (\<lambda>x. x = RequestFree q) (destroy_stream s) = of_bool (q \<in> fst ` set s))"
    using Cons.IH [of "r # dead"] Cons.prems x by auto
  then show ?case
    using Cons.prems x by (auto simp: destroy_stream_def)
qed

lemma destroy_owns: "occurs (\<lambda>x. x = RequestOwn r) (destroy_stream s) = 0"
  by (auto simp: occurs_def destroy_stream_def filter_empty_conv)

section \<open>What a subscriber receives\<close>

text \<open>The bytes that reach the client of a request, and what is still in its output buffer.\<close>

fun wire :: "request \<Rightarrow> bytes \<Rightarrow> evcall list \<Rightarrow> bytes \<times> bytes" where
  "wire r buf [] = ([], buf)"
| "wire r buf (BufferAdd q b # cs) = wire r (if q = r then buf @ b else buf) cs"
| "wire r buf (SendReplyChunk q # cs) =
     (if q = r then (case wire r [] cs of (x, b) \<Rightarrow> (buf @ x, b)) else wire r buf cs)"
| "wire r buf (_ # cs) = wire r buf cs"

fun stream_run :: "stream_event list \<Rightarrow> EventStream \<Rightarrow> EventStream \<times> evcall list" where
  "stream_run [] s = (s, [])"
| "stream_run (e # es) s =
     (case stream_apply e s of (s1, cs) \<Rightarrow> case stream_run es s1 of (s2, ds) \<Rightarrow> (s2, cs @ ds))"

fun published_events :: "stream_event list \<Rightarrow> (bytes \<times> bytes) list" where
  "published_events [] = []"
| "published_events (Publish n d # es) = (n, d) # published_events es"
| "published_events (_ # es) = published_events es"

fun leaves_alone :: "request \<Rightarrow> conn \<Rightarrow> stream_event \<Rightarrow> bool" where
  "leaves_alone r c (Subscribe r' c') = (r' \<noteq> r)"
| "leaves_alone r c (Publish n d) = True"
| "leaves_alone r c (Closed c') = (c' \<noteq> c)"

text \<open>
  A reader of the stream, after the event stream format of the HTML standard (for streams
  without carriage returns): complete lines, an empty line dispatches, \<open>event\<close> and \<open>data\<close> fields.
\<close>

fun stream_lines :: "bytes \<Rightarrow> bytes \<Rightarrow> bytes list" where
  "stream_lines line [] = []"
| "stream_lines line (ch # s) =
     (if ch = CHR 0x0A then line # stream_lines [] s else stream_lines (line @ [ch]) s)"

fun dispatch :: "bytes list \<Rightarrow> bytes \<Rightarrow> bytes option \<Rightarrow> (bytes \<times> bytes) list" where
  "dispatch [] ev dat = []"
| "dispatch (line # ls) ev dat =
     (if line = [] then
        (case dat of None \<Rightarrow> dispatch ls [] None | Some d \<Rightarrow> (ev, d) # dispatch ls [] None)
      else if starts_with ''event: '' line then dispatch ls (drop 7 line) dat
      else if starts_with ''data: '' line then
        dispatch ls ev (Some (case dat of None \<Rightarrow> drop 6 line | Some d \<Rightarrow> d @ [CHR 0x0A] @ drop 6 line))
      else dispatch ls ev dat)"

definition read_stream :: "bytes \<Rightarrow> (bytes \<times> bytes) list" where
  "read_stream s = dispatch (stream_lines [] s) [] None"

definition one_line :: "bytes \<Rightarrow> bool" where
  "one_line s \<longleftrightarrow> CHR 0x0A \<notin> set s \<and> CHR 0x0D \<notin> set s"

lemma wire_append:
  "wire r buf (cs @ ds) =
     (case wire r buf cs of (x, b) \<Rightarrow> case wire r b ds of (y, b') \<Rightarrow> (x @ y, b'))"
  by (induction r buf cs rule: wire.induct) (auto split: prod.splits)

lemma wire_publish_other: "r \<notin> fst ` set s \<Longrightarrow> wire r [] (publish n d s) = ([], [])"
  by (induction s) auto

lemma wire_publish:
  "filter (\<lambda>x. fst x = r) s = [(r, c)] \<Longrightarrow> wire r [] (publish n d s) = (event_payload n d, [])"
proof (induction s)
  case Nil
  then show ?case by simp
next
  case (Cons x s)
  show ?case
  proof (cases "fst x = r")
    case True
    then have "filter (\<lambda>x. fst x = r) s = []" using Cons.prems by simp
    then have "r \<notin> fst ` set s" by (auto simp: filter_empty_conv)
    then show ?thesis
      using True wire_publish_other [of r s n d] by (cases x) simp
  next
    case False
    then show ?thesis using Cons by (cases x) simp
  qed
qed

lemma wire_handle_close: "handle_close c s = (s', cs) \<Longrightarrow> wire r b cs = ([], b)"
  by (induction c s arbitrary: s' cs rule: handle_close.induct) (auto split: if_splits prod.splits)

lemma handle_close_other:
  "handle_close c' s = (s', cs) \<Longrightarrow> filter (\<lambda>x. fst x = r) s = [(r, c)] \<Longrightarrow> c' \<noteq> c \<Longrightarrow>
   filter (\<lambda>x. fst x = r) s' = [(r, c)]"
proof (induction c' s arbitrary: s' cs rule: handle_close.induct)
  case (1 c)
  then show ?case by simp
next
  case (2 c0 r0 c1 requests)
  then show ?case
  proof (cases "r0 = r")
    case True
    then have e: "c1 = c" "filter (\<lambda>x. fst x = r) requests = []" using "2.prems"(2) by auto
    obtain s2 cs2 where h: "handle_close c0 requests = (s2, cs2)" by fastforce
    have "filter (\<lambda>x. fst x = r) s2 = []" if "handle_close c0 q = (s2, cs2)" "filter (\<lambda>x. fst x = r) q = []" for q s2 cs2
      using that by (induction c0 q arbitrary: s2 cs2 rule: handle_close.induct) (auto split: if_splits prod.splits)
    from this [OF h e(2)] show ?thesis using 2 True e h by auto
  next
    case False
    then show ?thesis using 2 by (auto split: if_splits prod.splits)
  qed
qed

lemma wire_subscribe_other: "subscribe q c s = (s', cs) \<Longrightarrow> q \<noteq> r \<Longrightarrow> wire r b cs = ([], b)"
  by (auto simp: subscribe_def)

lemma wire_run:
  assumes "filter (\<lambda>x. fst x = r) s = [(r, c)]" and "list_all (leaves_alone r c) es"
    and "stream_run es s = (s', cs)"
  shows "wire r [] cs = (concat (map (\<lambda>(n, d). event_payload n d) (published_events es)), [])"
  using assms
proof (induction es arbitrary: s cs)
  case Nil
  then show ?case by simp
next
  case (Cons e es)
  obtain s1 cs1 where a: "stream_apply e s = (s1, cs1)" by fastforce
  obtain cs2 where b: "stream_run es s1 = (s', cs2)" and cs: "cs = cs1 @ cs2"
    using Cons.prems(3) a by (auto split: prod.splits)
  have f: "filter (\<lambda>x. fst x = r) s1 = [(r, c)]"
    using a Cons.prems(1,2) handle_close_other by (cases e) (auto simp: subscribe_def)
  have "wire r [] cs1 = (concat (map (\<lambda>(n, d). event_payload n d) (published_events [e])), [])"
    using a Cons.prems(1,2) wire_publish [of r s c] wire_subscribe_other wire_handle_close
    by (cases e) auto
  then show ?case
    using Cons.IH [OF f _ b] Cons.prems(2) unfolding cs wire_append by (cases e) auto
qed

lemma stream_lines_one: "CHR 0x0A \<notin> set s \<Longrightarrow> stream_lines line (s @ [CHR 0x0A] @ t) = (line @ s) # stream_lines [] t"
  by (induction s arbitrary: line) auto

lemma starts_with_append [simp]: "starts_with p (p @ s)"
  by (induction p) auto

lemma read_payload:
  assumes "one_line n" and "one_line d"
  shows "read_stream (event_payload n d @ s) = (n, d) # read_stream s"
proof -
  have "event_payload n d @ s =
      (''event: '' @ n) @ [CHR 0x0A] @ (''data: '' @ d) @ [CHR 0x0A] @ [] @ [CHR 0x0A] @ s"
    by (simp add: event_payload_def)
  moreover have "stream_lines [] \<dots> = (''event: '' @ n) # (''data: '' @ d) # [] # stream_lines [] s"
    using assms stream_lines_one [of "''event: '' @ n" "[]"] stream_lines_one [of "''data: '' @ d" "[]"]
      stream_lines_one [of "[]" "[]" s]
    by (simp only: one_line_def) auto
  ultimately show ?thesis by (simp add: read_stream_def)
qed

lemma read_payloads:
  "list_all (\<lambda>(n, d). one_line n \<and> one_line d) ps \<Longrightarrow>
   read_stream (concat (map (\<lambda>(n, d). event_payload n d) ps)) = ps"
  by (induction ps) (auto simp: read_payload, simp add: read_stream_def)

section \<open>Properties\<close>

text \<open>
  C19: whatever the order of subscriptions, publications and closed connections, and after the
  destructor ran on what is left: no call touches a request after it was freed, and every
  request the stream took over is freed exactly once.
\<close>

theorem event_stream_memory_safe:
  assumes "stream_reach s t"
  shows "safe [] (t @ destroy_stream s) \<and>
    occurs (\<lambda>x. x = RequestFree r) (t @ destroy_stream s) = occurs (\<lambda>x. x = RequestOwn r) (t @ destroy_stream s)"
proof -
  note inv = stream_inv [OF assms]
  have "safe (free_list t @ []) (destroy_stream s) \<and>
      occurs (\<lambda>x. x = RequestFree r) (destroy_stream s) = of_bool (r \<in> fst ` set s)"
    using destroy_calls [of s "free_list t @ []"] inv by auto
  then show ?thesis
    using inv by (auto simp: safe_append destroy_owns)
qed

definition sample_trace :: "evcall list" where
  "sample_trace = snd (stream_run [Subscribe 1 7, Publish ''message'' ''{}'', Closed 7, Publish ''message'' ''{}''] [])"

lemma sample_stream_reach: "stream_reach [] sample_trace"
proof -
  have 1: "stream_reach [(1, 7)] (snd (subscribe 1 7 []))"
    using stream_reach.subscribed [OF stream_reach.start, of 1 7] by (simp add: subscribe_def)
  have 2: "stream_reach [(1, 7)] (snd (subscribe 1 7 []) @ publish ''message'' ''{}'' [(1, 7)])"
    using stream_reach.published [OF 1] by simp
  have 3: "stream_reach [] ((snd (subscribe 1 7 []) @ publish ''message'' ''{}'' [(1, 7)]) @ [RequestFree 1])"
    using stream_reach.closed [OF 2, of 7] by simp
  show ?thesis
    using stream_reach.published [OF 3, of "''message''" "''{}''"]
    by (simp add: sample_trace_def subscribe_def)
qed

theorem event_stream_memory_safe_witness:
  "safe [] sample_trace \<and> occurs (\<lambda>x. x = RequestFree 1) sample_trace = occurs (\<lambda>x. x = RequestOwn 1) sample_trace"
  using event_stream_memory_safe [OF sample_stream_reach, of 1] by (simp add: destroy_stream_def)

text \<open>
  C20: a subscriber that stays connected reads exactly the ready event and then every event
  published after it subscribed, once and in order, whatever other subscribers come and go,
  provided names and data hold no line break (which the plain serialization of JSON ensures).
\<close>

theorem subscriber_reads_published:
  assumes "subscribe r c s = (s1, cs)" and "r \<notin> fst ` set s"
    and "stream_run es s1 = (s2, ds)" and "list_all (leaves_alone r c) es"
    and "list_all (\<lambda>(n, d). one_line n \<and> one_line d) (published_events es)"
  shows "read_stream (fst (wire r [] (cs @ ds))) = (''ready'', ''{}'') # published_events es"
proof -
  have "filter (\<lambda>x. fst x = r) s = []"
    using assms(2) by (auto simp: filter_empty_conv)
  then have f: "filter (\<lambda>x. fst x = r) s1 = [(r, c)]"
    using assms(1) by (auto simp: subscribe_def)
  have "wire r [] cs = (event_payload ''ready'' ''{}'', [])"
    using assms(1) by (auto simp: subscribe_def ready_event_def event_payload_def)
  moreover have "one_line ''ready''" "one_line ''{}''" by (simp_all add: one_line_def)
  ultimately show ?thesis
    using wire_run [OF f assms(4,3)] read_payloads [OF assms(5)]
    by (simp add: wire_append read_payload)
qed

theorem subscriber_reads_published_witness:
  "read_stream (fst (wire 1 [] (snd (subscribe 1 7 []) @
     snd (stream_run [Subscribe 2 8, Publish ''message'' ''{1}'', Closed 8, Publish ''message'' ''{2}''] [(1, 7)])))) =
   [(''ready'', ''{}''), (''message'', ''{1}''), (''message'', ''{2}'')]"
proof -
  let ?es = "[Subscribe 2 8, Publish ''message'' ''{1}'', Closed 8, Publish ''message'' ''{2}'']"
  have a: "subscribe 1 7 [] = ([(1, 7)], snd (subscribe 1 7 []))" by (simp add: subscribe_def)
  have b: "stream_run ?es [(1, 7)] = (fst (stream_run ?es [(1, 7)]), snd (stream_run ?es [(1, 7)]))" by simp
  show ?thesis
    using subscriber_reads_published [OF a _ b] by (simp add: one_line_def)
qed

end
