(* ===== verification/Les_Node.thy ===== *)
theory Les_Node
  imports Les_History Les_Codec Les_Registry Les_Clock Les_Events
begin

text \<open>
  The state of a running node: the objects that \<open>application.hpp\<close> owns, as one record, with the
  library calls made so far.  \<open>Env\<close> bundles the third-party code the sources call and
  \<open>Config\<close> what the constructor of \<open>Application\<close> was given.  The handlers of the components
  are actions on the node.
\<close>

record Datagram =
  dg_address :: bytes
  dg_port :: u16
  dg_interface :: nat
  dg_payload :: bytes

record sockets =
  inet_pton_ok :: "bytes \<Rightarrow> bool"
  if_nametoindex :: "bytes \<Rightarrow> nat"
  cmsg_firsthdr_ok :: bool
  send_result :: "nat \<Rightarrow> int"
  strerror :: bytes

record ('db, 'j) Env =
  sql :: "'db sqlite"
  js :: "'j jsonc"
  ev :: libevent
  os :: sockets
  settime :: "timespec \<Rightarrow> bool"

record Config =
  cfg_identity :: NodeIdentity
  cfg_bind_address :: bytes
  cfg_port :: u16
  cfg_discovery_address :: bytes
  cfg_discovery_interface :: bytes
  cfg_discovery_port :: u16
  cfg_time_sync_mode :: TimeSyncMode
  cfg_time_authority_id :: bytes
  cfg_database_path :: bytes
  cfg_local_address :: bytes

record 'db Node =
  n_store :: "'db MessageStore"
  n_next_sequence :: u64
  n_peers :: PeerRegistry
  n_clock :: Clock
  n_events :: EventStream
  n_pending :: "RequestContext list"
  n_handles :: nat
  n_announce_failed :: bool
  n_datagrams :: "Datagram list"
  n_calls :: "evcall list"

definition emit :: "evcall list \<Rightarrow> 'db Node \<Rightarrow> 'db Node" where
  "emit cs n = n\<lparr>n_calls := n_calls n @ cs\<rparr>"

text \<open>An action of the store run on the store of the node.\<close>

definition on_store :: "('db MessageStore, 'a) action \<Rightarrow> ('db Node, 'a) action" where
  "on_store a = (\<lambda>n. case a (n_store n) of (r, s) \<Rightarrow> (r, n\<lparr>n_store := s\<rparr>))"

definition lift_result :: "'a result \<Rightarrow> ('s, 'a) action" where
  "lift_result r = (\<lambda>s. (r, s))"

section \<open>Facts\<close>

lemma emit_fields [simp]:
  "n_store (emit cs n) = n_store n" "n_next_sequence (emit cs n) = n_next_sequence n"
  "n_peers (emit cs n) = n_peers n" "n_clock (emit cs n) = n_clock n" "n_events (emit cs n) = n_events n"
  "n_pending (emit cs n) = n_pending n" "n_handles (emit cs n) = n_handles n"
  "n_announce_failed (emit cs n) = n_announce_failed n" "n_datagrams (emit cs n) = n_datagrams n"
  "n_calls (emit cs n) = n_calls n @ cs"
  by (simp_all add: emit_def)

lemma emit_emit [simp]: "emit ds (emit cs n) = emit (cs @ ds) n"
  by (simp add: emit_def)

lemma emit_Nil [simp]: "emit [] n = n"
  by (simp add: emit_def)

lemma on_store_eq: "on_store a n = (fst (a (n_store n)), n\<lparr>n_store := snd (a (n_store n))\<rparr>)"
  by (simp add: on_store_def split: prod.splits)

lemma keeps_lift [keeps_rules]: "keeps P (lift_result r)"
  by (simp add: keeps_def lift_result_def)

lemma keeps_query [keeps_rules]: "(\<And>x. keeps P (g x)) \<Longrightarrow> keeps P (\<lambda>n. andthen (lift_result (f n)) g n)"
  by (auto simp: keeps_def andthen_def lift_result_def split: sum.splits)

lemma lift_result_simp [simp]: "lift_result r s = (r, s)"
  by (simp add: lift_result_def)

end
