(* ===== verification/Les_Service.thy ===== *)
theory Les_Service
  imports Les_Node
begin

text \<open>
  \<open>replication_service.cpp\<close> and \<open>message_service.cpp\<close>: sending a message to every active peer,
  and the three ways a message enters the node: written locally, replicated by a peer, or
  received in a synchronization batch.
\<close>

section \<open>Replication\<close>

definition replication_post :: "libevent \<Rightarrow> bytes \<Rightarrow> bytes \<Rightarrow> Peer \<Rightarrow> nat \<Rightarrow>
    evcall list \<times> RequestContext option" where
  "replication_post L local_address json_payload peer h =
     post_request L local_address ReplicationResponse
       [(''Content-Type'', ''application/json''), (''Accept'', ''application/json'')]
       ''/api/v1/replicate'' json_payload (address peer) (http_port peer) h"

definition broadcast :: "('db, 'j) Env \<Rightarrow> Config \<Rightarrow> bytes \<Rightarrow> 'db Node \<Rightarrow> 'db Node" where
  "broadcast W C json_payload n =
     (let peers = active_peers (current_time_ms (n_clock n)) (n_peers n) in
      case post_all (replication_post (ev W) (cfg_local_address C) json_payload) peers (n_handles n) of
        (cs, ctxs, h) \<Rightarrow> emit cs (n\<lparr>n_pending := n_pending n @ ctxs, n_handles := h\<rparr>))"

text \<open>The response to a replication: whatever it says, the connection is released.\<close>

definition replication_response :: "RequestContext \<Rightarrow> 'db Node \<Rightarrow> 'db Node" where
  "replication_response state n = emit [ConnectionFree (ctx_connection state)] n"

section \<open>The message service\<close>

definition publish_message :: "('db, 'j) Env \<Rightarrow> ChatMessage \<Rightarrow> ('db Node, unit) action" where
  "publish_message W message =
     andthen (lift_result (message_to_json (js W) message)) (\<lambda>message_json.
     andthen (lift_result (serialize_json (js W) message_json)) (\<lambda>text n.
       (Inr (), emit (publish ''message'' text (n_events n)) n)))"

definition replicate_to_peers :: "('db, 'j) Env \<Rightarrow> Config \<Rightarrow> ChatMessage \<Rightarrow> ('db Node, unit) action" where
  "replicate_to_peers W C message =
     andthen (lift_result (message_to_json (js W) message)) (\<lambda>payload.
     andthen (lift_result (serialize_json (js W) payload)) (\<lambda>text n.
       (Inr (), broadcast W C text n)))"

definition message_id_of :: "bytes \<Rightarrow> u64 \<Rightarrow> bytes" where
  "message_id_of node seq = node @ '':'' @ to_string (unat seq)"

definition local_message :: "Config \<Rightarrow> u64 \<Rightarrow> int \<Rightarrow> bytes \<Rightarrow> ChatMessage" where
  "local_message C seq now text =
     \<lparr>sequence = seq, message_id = message_id_of (node_id (cfg_identity C)) seq,
      origin = node_id (cfg_identity C), callsign = node_callsign (cfg_identity C),
      channel = default_channel, created_at_ms = now, body = text\<rparr>"

definition create_local :: "('db, 'j) Env \<Rightarrow> Config \<Rightarrow> bytes \<Rightarrow> ('db Node, ChatMessage) action" where
  "create_local W C text = (\<lambda>n.
     let message = local_message C (n_next_sequence n) (current_time_ms (n_clock n)) text in
     andthen (on_store (add (sql W) message)) (\<lambda>_.
     andthen (publish_message W message) (\<lambda>_.
     andthen (replicate_to_peers W C message) (\<lambda>_.
     ret message))) (n\<lparr>n_next_sequence := n_next_sequence n + 1\<rparr>))"

definition ingest_replica :: "('db, 'j) Env \<Rightarrow> ChatMessage \<Rightarrow> ('db Node, bool) action" where
  "ingest_replica W message =
     andthen (on_store (contains (sql W) (message_id message))) (\<lambda>present.
       if present then ret False
       else andthen (on_store (add (sql W) message)) (\<lambda>_.
            andthen (publish_message W message) (\<lambda>_. ret True)))"

definition ingest_sync :: "('db, 'j) Env \<Rightarrow> ChatMessage \<Rightarrow> ('db Node, bool) action" where
  "ingest_sync W message =
     andthen (on_store (add (sql W) message)) (\<lambda>added.
       if \<not> added then ret False
       else andthen (publish_message W message) (\<lambda>_. ret True))"

definition service_messages :: "'db Node \<Rightarrow> ChatMessage list" where
  "service_messages n = messages (n_store n)"

definition service_summary :: "('db, 'j) Env \<Rightarrow> ('db Node, (bytes \<times> u64) list) action" where
  "service_summary W = on_store (sequence_summary (sql W))"

section \<open>Message ids\<close>

lemma message_id_of_inject:
  assumes "message_id_of a m = message_id_of b n" and "CHR '':'' \<notin> set a" and "CHR '':'' \<notin> set b"
  shows "a = b \<and> m = n"
proof -
  have cut: "takeWhile (\<lambda>c. c \<noteq> CHR '':'') (message_id_of x k) = x" if "CHR '':'' \<notin> set x" for x k
    using that by (auto simp: message_id_of_def takeWhile_tail takeWhile_eq_all_conv)
  have "a = b" using cut [OF assms(2)] cut [OF assms(3)] assms(1) by metis
  moreover have "m = n"
    using assms(1) \<open>a = b\<close> by (simp add: message_id_of_def word_unat_eq_iff)
  ultimately show ?thesis by blast
qed

section \<open>The parts of an operation\<close>

definition message_text :: "'j jsonc \<Rightarrow> ChatMessage \<Rightarrow> bytes result" where
  "message_text J m = result_bind (message_to_json J m) (serialize_json J)"

context json_library
begin

lemma message_text_total: "\<exists>t. message_text J m = Inr t"
proof -
  obtain v where "message_to_json J m = Inr v"
    using build_object_ok [of "message_members J m"] by (auto simp: message_to_json_def)
  moreover obtain t where "serialize_json J v = Inr t"
    using serialize_total by blast
  ultimately show ?thesis by (auto simp: message_text_def)
qed

end

lemma publish_message_eq:
  "publish_message W m n =
     (case message_text (js W) m of Inl e \<Rightarrow> (Inl e, n)
      | Inr t \<Rightarrow> (Inr (), emit (publish ''message'' t (n_events n)) n))"
  by (auto simp: publish_message_def message_text_def andthen_def result_bind_def split: sum.splits)

lemma replicate_to_peers_eq:
  "replicate_to_peers W C m n =
     (case message_text (js W) m of Inl e \<Rightarrow> (Inl e, n) | Inr t \<Rightarrow> (Inr (), broadcast W C t n))"
  by (auto simp: replicate_to_peers_def message_text_def andthen_def result_bind_def split: sum.splits)

lemma broadcast_fields [simp]:
  "n_store (broadcast W C t n) = n_store n" "n_next_sequence (broadcast W C t n) = n_next_sequence n"
  "n_peers (broadcast W C t n) = n_peers n" "n_clock (broadcast W C t n) = n_clock n"
  "n_events (broadcast W C t n) = n_events n" "n_datagrams (broadcast W C t n) = n_datagrams n"
  "n_announce_failed (broadcast W C t n) = n_announce_failed n"
  by (auto simp: broadcast_def Let_def split: prod.splits)

text \<open>Each operation of the service, with its calls to the other components resolved.\<close>

lemma create_local_eq:
  assumes "message_text (js W) (local_message C (n_next_sequence n) (current_time_ms (n_clock n)) txt) = Inr t"
  shows "create_local W C txt n =
    (let m = local_message C (n_next_sequence n) (current_time_ms (n_clock n)) txt in
     case add (sql W) m (n_store n) of (r, s) \<Rightarrow>
       let n1 = n\<lparr>n_next_sequence := n_next_sequence n + 1, n_store := s\<rparr> in
       (case r of Inl e \<Rightarrow> (Inl e, n1)
        | Inr _ \<Rightarrow> (Inr m, broadcast W C t (emit (publish ''message'' t (n_events n)) n1))))"
  using assms
  by (simp add: create_local_def Let_def andthen_def on_store_eq publish_message_eq replicate_to_peers_eq
      split: prod.splits sum.splits)

lemma ingest_replica_eq:
  assumes "message_text (js W) m = Inr t"
  shows "ingest_replica W m n =
    (case contains (sql W) (message_id m) (n_store n) of
       (Inl e, s) \<Rightarrow> (Inl e, n\<lparr>n_store := s\<rparr>)
     | (Inr present, s) \<Rightarrow>
         if present then (Inr False, n\<lparr>n_store := s\<rparr>)
         else (case add (sql W) m s of
             (Inl e, s') \<Rightarrow> (Inl e, n\<lparr>n_store := s'\<rparr>)
           | (Inr _, s') \<Rightarrow> (Inr True, emit (publish ''message'' t (n_events n)) (n\<lparr>n_store := s'\<rparr>))))"
  using assms
  by (auto simp: ingest_replica_def andthen_def on_store_eq publish_message_eq split: prod.splits sum.splits)

lemma ingest_sync_eq:
  assumes "message_text (js W) m = Inr t"
  shows "ingest_sync W m n =
    (case add (sql W) m (n_store n) of
       (Inl e, s) \<Rightarrow> (Inl e, n\<lparr>n_store := s\<rparr>)
     | (Inr added, s) \<Rightarrow>
         (Inr added, if added then emit (publish ''message'' t (n_events n)) (n\<lparr>n_store := s\<rparr>) else n\<lparr>n_store := s\<rparr>))"
  using assms
  by (auto simp: ingest_sync_def andthen_def on_store_eq publish_message_eq split: prod.splits sum.splits bool.splits)

section \<open>The numbering of local messages\<close>

text \<open>
  Rows of the local origin carry the id their number gives and lie below the counter; other
  rows do not use an id of the local node.
\<close>

definition honest_row :: "bytes \<Rightarrow> ChatMessage \<Rightarrow> bool" where
  "honest_row node r \<longleftrightarrow>
     (if origin r = node then message_id r = message_id_of node (sequence r)
      else \<forall>k. message_id r \<noteq> message_id_of node k)"

definition numbering_ok :: "bytes \<Rightarrow> u64 \<Rightarrow> tables \<Rightarrow> bool" where
  "numbering_ok node next t \<longleftrightarrow>
     1 \<le> unat next \<and>
     (\<forall>r \<in> set (t_messages t). honest_row node r \<and> (origin r = node \<longrightarrow> sequence r < next))"

lemma honest_row_foreign:
  assumes "message_id r = message_id_of (origin r) (sequence r)"
    and "CHR '':'' \<notin> set (origin r)" and "CHR '':'' \<notin> set node"
  shows "honest_row node r"
  using assms message_id_of_inject [OF _ assms(2,3)] by (auto simp: honest_row_def)

lemma id_same_node: "message_id_of node i = message_id_of node k \<longleftrightarrow> i = k"
  by (auto simp: message_id_of_def word_unat_eq_iff)

lemma numbering_fresh:
  assumes "numbering_ok node next t"
    and "message_id m = message_id_of node next" and "origin m = node" and "sequence m = next"
  shows "fresh m t"
  using assms id_same_node
  by (fastforce simp: numbering_ok_def honest_row_def fresh_def list_all_iff split: if_splits)

lemma numbering_add_local:
  assumes "numbering_ok node next t" and "add_effect m t r t'" and "unat next + 1 < 2 ^ 64"
    and "message_id m = message_id_of node next" and "origin m = node" and "sequence m = next"
  shows "numbering_ok node (next + 1) t'"
proof -
  have lt: "next < next + 1" and u: "unat (next + 1) = unat next + 1"
    using assms(3) by (simp_all add: word_less_nat_alt unat_add_lem [THEN iffD1])
  have "honest_row node x \<and> (origin x = node \<longrightarrow> sequence x < next + 1)" if "x \<in> set (t_messages t')" for x
    using add_effect_rows [OF assms(2) that] assms lt
    by (auto simp: numbering_ok_def honest_row_def intro: less_trans)
  then show ?thesis using u by (simp add: numbering_ok_def)
qed

lemma numbering_add_foreign:
  assumes "numbering_ok node next t" and "add_effect m t r t'" and "origin m \<noteq> node" and "honest_row node m"
  shows "numbering_ok node next t'"
  using assms add_effect_rows [OF assms(2)] by (auto simp: numbering_ok_def)

section \<open>A node for the examples\<close>

definition sample_libevent :: libevent where
  "sample_libevent = \<lparr>outcome = (\<lambda>_. Sent), evbuffer_ok = (\<lambda>_. True), uri_parse = (\<lambda>u. Some (Some u)),
     web_root = ''web'', read_file = (\<lambda>_. CannotOpen)\<rparr>"

definition sample_os :: sockets where
  "sample_os = \<lparr>inet_pton_ok = (\<lambda>_. True), if_nametoindex = (\<lambda>_. 1), cmsg_firsthdr_ok = True,
     send_result = (\<lambda>_. 0), strerror = ''error''\<rparr>"

definition sample_env :: "(refdb, json) Env" where
  "sample_env = \<lparr>sql = sample_engine, js = sample_jsonc, ev = sample_libevent, os = sample_os,
     settime = (\<lambda>_. False)\<rparr>"

definition sample_config :: Config where
  "sample_config = \<lparr>cfg_identity = \<lparr>node_id = ''node-a'', node_callsign = ''Bolt''\<rparr>,
     cfg_bind_address = ''127.0.0.1'', cfg_port = 7777, cfg_discovery_address = ''255.255.255.255'',
     cfg_discovery_interface = [], cfg_discovery_port = 7777, cfg_time_sync_mode = Off,
     cfg_time_authority_id = [], cfg_database_path = ''chat.db'', cfg_local_address = []\<rparr>"

definition sample_node :: "refdb Node" where
  "sample_node = \<lparr>n_store = sample_store, n_next_sequence = 1, n_peers = [],
     n_clock = \<lparr>system_ms = 1, time_offset_ms = 0\<rparr>, n_events = [(3, 4)], n_pending = [], n_handles = 10,
     n_announce_failed = False, n_datagrams = [], n_calls = []\<rparr>"

lemma sample_env_fields [simp]:
  "sql sample_env = sample_engine" "js sample_env = sample_jsonc" "ev sample_env = sample_libevent"
  "os sample_env = sample_os"
  by (simp_all add: sample_env_def)

lemma sample_local_message: "local_message sample_config 1 1 ''hello'' = sample_message 1"
  by (simp add: local_message_def sample_config_def sample_message_def message_id_of_def default_channel_def)

definition sample_message_text :: "ChatMessage \<Rightarrow> bytes" where
  "sample_message_text m = (case message_text sample_jsonc m of Inr t \<Rightarrow> t | Inl _ \<Rightarrow> [])"

lemma sample_text: "message_text sample_jsonc m = Inr (sample_message_text m)"
  using json_library.message_text_total [OF sample_jsonc_library, of m]
  by (auto simp: sample_message_text_def)

lemma sample_node_fields [simp]:
  "n_store sample_node = sample_store" "n_next_sequence sample_node = 1" "n_events sample_node = [(3, 4)]"
  "current_time_ms (n_clock sample_node) = 1" "n_peers sample_node = []" "n_calls sample_node = []"
  by (simp_all add: sample_node_def current_time_ms_def system_time_ms_def)

lemma sample_numbering: "numbering_ok ''node-a'' 1 (tables_of ref_view sample_store)"
  by (simp add: numbering_ok_def tables_of_def sample_store_def ref_view_def empty_refdb_def empty_tables_def)

definition sample_created :: "refdb Node" where
  "sample_created = snd (create_local sample_env sample_config ''hello'' sample_node)"

lemma sample_create:
  "create_local sample_env sample_config ''hello'' sample_node = (Inr (sample_message 1), sample_created)"
  "n_store sample_created = sample_stored" "n_next_sequence sample_created = 2"
  "n_calls sample_created = [BufferAdd 3 (event_payload ''message'' (sample_message_text (sample_message 1))), SendReplyChunk 3]"
proof -
  have e: "create_local sample_env sample_config ''hello'' sample_node =
      (Inr (sample_message 1), broadcast sample_env sample_config (sample_message_text (sample_message 1))
        (emit (publish ''message'' (sample_message_text (sample_message 1)) [(3, 4)]) (sample_node\<lparr>n_next_sequence := 2, n_store := sample_stored\<rparr>)))"
    using sample_add
    by (subst create_local_eq [where t = "sample_message_text (sample_message 1)"])
       (simp_all only: sample_env_fields sample_node_fields sample_local_message sample_text Let_def
         prod.case sum.case one_add_one)
  then show "create_local sample_env sample_config ''hello'' sample_node = (Inr (sample_message 1), sample_created)"
    by (simp only: sample_created_def snd_conv)
  show "n_store sample_created = sample_stored" "n_next_sequence sample_created = 2"
    by (simp_all add: sample_created_def e)
  show "n_calls sample_created = [BufferAdd 3 (event_payload ''message'' (sample_message_text (sample_message 1))), SendReplyChunk 3]"
    by (simp add: sample_created_def e broadcast_def active_peers_def current_time_ms_def)
qed

section \<open>Properties\<close>

lemma local_message_fields [simp]:
  "message_id (local_message C k now txt) = message_id_of (node_id (cfg_identity C)) k"
  "origin (local_message C k now txt) = node_id (cfg_identity C)" "sequence (local_message C k now txt) = k"
  by (simp_all add: local_message_def)

lemma create_local_row:
  assumes "json_library (js W)" and "sqlite_engine (sql W) view" and "store_weak view (n_store n)"
    and "numbering_ok (node_id (cfg_identity C)) (n_next_sequence n) (tables_of view (n_store n))"
    and "create_local W C txt n = (Inr m, n')"
  shows "m = local_message C (n_next_sequence n) (current_time_ms (n_clock n)) txt \<and>
    m \<in> set (t_messages (tables_of view (n_store n'))) \<and> last (t_messages (tables_of view (n_store n'))) = m \<and>
    store_weak view (n_store n') \<and> n_next_sequence n' = n_next_sequence n + 1 \<and>
    numbering_ok (node_id (cfg_identity C)) (n_next_sequence n') (tables_of view (n_store n'))"
proof -
  let ?m = "local_message C (n_next_sequence n) (current_time_ms (n_clock n)) txt"
  obtain t where t: "message_text (js W) ?m = Inr t"
    using json_library.message_text_total [OF assms(1)] by blast
  obtain r s where a: "add (sql W) ?m (n_store n) = (r, s)" by fastforce
  from create_local_eq [OF t] assms(5) a
  obtain b where b: "r = Inr b" and m: "m = ?m"
    and n': "n_store n' = s" "n_next_sequence n' = n_next_sequence n + 1"
    by (cases r) (auto simp: Let_def)
  have st: "storable ?m" using assms(4) by (simp add: storable_def numbering_ok_def)
  have spec: "add_effect ?m (tables_of view (n_store n)) (Inr b) (tables_of view s)" and w: "store_weak view s"
    using sqlite_engine.add_weak [OF assms(2,3) st a] b by auto
  have "fresh ?m (tables_of view (n_store n))"
    using assms(4) by (rule numbering_fresh) simp_all
  from add_effect_fresh [OF spec this] have b1: "b" and lt: "unat (n_next_sequence n) < 2 ^ 63" by auto
  have "numbering_ok (node_id (cfg_identity C)) (n_next_sequence n + 1) (tables_of view s)"
    using numbering_add_local [OF assms(4) spec] lt by simp
  then show ?thesis
    using add_effect_True [OF spec [unfolded eqTrueI [OF b1]]] m n' w by simp
qed

text \<open>
  C7: a local message is not lost while the numbering is in order (\<open>numbering_ok\<close>: the counter is at
  least 1 and above every stored number of the local origin, the rows of the local origin carry the
  id that their number gives, and no row of another origin uses an id of the local node).  Then, when
  \<open>create_local\<close> returns, the message it returns has the counter as its number, the time of the
  node and the id made of both, it is the newest row of the database, and the numbering is again
  in order with the counter one higher.
\<close>

theorem create_local_stores:
  assumes "json_library (js W)" and "sqlite_engine (sql W) view" and "store_weak view (n_store n)"
    and "numbering_ok (node_id (cfg_identity C)) (n_next_sequence n) (tables_of view (n_store n))"
    and "create_local W C txt n = (Inr m, n')"
  shows "m = local_message C (n_next_sequence n) (current_time_ms (n_clock n)) txt \<and>
    m \<in> set (t_messages (tables_of view (n_store n'))) \<and> last (t_messages (tables_of view (n_store n'))) = m \<and>
    store_weak view (n_store n') \<and> n_next_sequence n' = n_next_sequence n + 1 \<and>
    numbering_ok (node_id (cfg_identity C)) (n_next_sequence n') (tables_of view (n_store n'))"
  using assms by (rule create_local_row)

theorem create_local_stores_witness:
  "last (t_messages (tables_of ref_view (n_store sample_created))) = sample_message 1 \<and>
   numbering_ok ''node-a'' 2 (tables_of ref_view (n_store sample_created))"
  using create_local_stores [of sample_env ref_view sample_node sample_config, OF _ _ _ _ sample_create(1)]
    sample_jsonc_library sample_engine_ok store_inv_weak [OF sample_store_inv] sample_numbering sample_create(3)
  by (simp add: sample_config_def)

text \<open>
  C32: when storing a local message throws, it is neither shown to the subscribers nor sent to a
  peer; the counter has moved on, so its number is not used for another message.
\<close>

theorem create_local_failure:
  assumes "json_library (js W)" and "create_local W C txt n = (Inl e, n')"
  shows "n_calls n' = n_calls n \<and> n_pending n' = n_pending n \<and> n_next_sequence n' = n_next_sequence n + 1 \<and>
    fst (add (sql W) (local_message C (n_next_sequence n) (current_time_ms (n_clock n)) txt) (n_store n)) = Inl e"
proof -
  let ?m = "local_message C (n_next_sequence n) (current_time_ms (n_clock n)) txt"
  obtain t where t: "message_text (js W) ?m = Inr t"
    using json_library.message_text_total [OF assms(1)] by blast
  obtain r s where a: "add (sql W) ?m (n_store n) = (r, s)" by fastforce
  from create_local_eq [OF t] assms(2) a show ?thesis
    by (cases r) (auto simp: Let_def)
qed

theorem create_local_failure_witness:
  "n_next_sequence (snd (create_local sample_env sample_config ''hello'' (sample_node\<lparr>n_next_sequence := 0x8000000000000000\<rparr>))) = 0x8000000000000001 \<and>
   n_calls (snd (create_local sample_env sample_config ''hello'' (sample_node\<lparr>n_next_sequence := 0x8000000000000000\<rparr>))) = []"
proof -
  let ?n = "sample_node\<lparr>n_next_sequence := 0x8000000000000000\<rparr>"
  let ?m = "local_message sample_config 0x8000000000000000 1 ''hello''"
  have "fst (add sample_engine ?m sample_store) = Inl (RuntimeError ''Message sequence exceeds SQLite range'')"
    by (simp add: add_def insert_and_remember_def insert_message_def andthen_def execute_def insert_body_def
        sample_engine_def sample_store_def empty_refdb_def)
  then obtain n' where "create_local sample_env sample_config ''hello'' ?n =
      (Inl (RuntimeError ''Message sequence exceeds SQLite range''), n')"
    using create_local_eq [of sample_env sample_config ?n "''hello''", OF sample_text [folded sample_env_fields(2)]]
    by (auto simp: Let_def current_time_ms_def sample_node_def system_time_ms_def split: prod.splits)
  from create_local_failure [OF _ this] this show ?thesis
    using sample_jsonc_library by simp
qed

text \<open>
  A message of a synchronization batch is shown to the subscribers exactly when it is new
  and stored; a duplicate and a failure publish nothing.
\<close>

theorem ingest_sync_publishes_stored:
  assumes "json_library (js W)" and "sqlite_engine (sql W) view" and "store_weak view (n_store n)"
    and "storable m" and "ingest_sync W m n = (r, n')"
  shows "add_effect m (tables_of view (n_store n)) r (tables_of view (n_store n')) \<and> store_weak view (n_store n') \<and>
    (\<exists>t. n_calls n' = n_calls n @ (if r = Inr True then publish ''message'' t (n_events n) else []))"
proof -
  obtain t where t: "message_text (js W) m = Inr t"
    using json_library.message_text_total [OF assms(1)] by blast
  obtain q s where a: "add (sql W) m (n_store n) = (q, s)" by fastforce
  note spec = sqlite_engine.add_weak [OF assms(2-4) a]
  from ingest_sync_eq [OF t] assms(5) a spec show ?thesis
    by (cases q) (auto split: if_splits)
qed

theorem ingest_sync_publishes_stored_witness:
  "fst (ingest_sync sample_env (sample_message 1) sample_node) = Inr True \<and>
   sample_message 1 \<in> set (t_messages (tables_of ref_view (n_store (snd (ingest_sync sample_env (sample_message 1) sample_node)))))"
proof -
  obtain r n' where i: "ingest_sync sample_env (sample_message 1) sample_node = (r, n')" by fastforce
  have "r = Inr True"
    using i sample_add by (simp add: ingest_sync_eq [OF sample_text [folded sample_env_fields(2)]])
  moreover from ingest_sync_publishes_stored [of sample_env ref_view, OF _ _ _ sample_storable i]
  have "add_effect (sample_message 1) (tables_of ref_view sample_store) r (tables_of ref_view (n_store n'))"
    using sample_jsonc_library sample_engine_ok store_inv_weak [OF sample_store_inv] by simp
  ultimately show ?thesis using i add_effect_True by fastforce
qed

lemma ingest_replica_cases:
  assumes "json_library (js W)" and "sqlite_engine (sql W) view" and "store_weak view (n_store n)"
    and "storable m" and "ingest_replica W m n = (r, n')"
  shows "store_weak view (n_store n') \<and>
    (case r of
       Inr True \<Rightarrow> (\<exists>b. add_effect m (tables_of view (n_store n)) (Inr b) (tables_of view (n_store n'))) \<and>
         (\<exists>t. n_calls n' = n_calls n @ publish ''message'' t (n_events n))
     | Inr False \<Rightarrow> message_id m \<in> message_id ` set (t_messages (tables_of view (n_store n))) \<and>
         tables_of view (n_store n') = tables_of view (n_store n) \<and> n_calls n' = n_calls n
     | Inl e \<Rightarrow> n_calls n' = n_calls n \<and>
         (tables_of view (n_store n') = tables_of view (n_store n) \<or>
          add_effect m (tables_of view (n_store n)) (Inl e) (tables_of view (n_store n'))))"
proof -
  obtain t where t: "message_text (js W) m = Inr t"
    using json_library.message_text_total [OF assms(1)] by blast
  obtain c s where c: "contains (sql W) (message_id m) (n_store n) = (c, s)" by fastforce
  have v: "view (store_db s) = view (store_db (n_store n))" "store_messages s = store_messages (n_store n)"
    using sqlite_engine.contains_keeps [OF assms(2) c] by auto
  have t': "tables_of view s = tables_of view (n_store n)" and w: "store_weak view s"
    using v assms(3) by (auto simp: tables_of_def store_weak_def)
  obtain q s2 where a: "add (sql W) m s = (q, s2)" by fastforce
  note spec = sqlite_engine.add_weak [OF assms(2) w assms(4) a, unfolded t']
  have present: "message_id m \<in> message_id ` set (t_messages (tables_of view (n_store n)))" if "c = Inr True"
    using sqlite_engine.contains_True [OF assms(2) c [unfolded that], of "tables_of view (n_store n)"]
    by (simp add: tables_of_def prod_eq_iff)
  show ?thesis
  proof (cases c)
    case (Inl e)
    then show ?thesis using ingest_replica_eq [OF t] assms(5) c w t' by auto
  next
    case (Inr p)
    then show ?thesis
      using ingest_replica_eq [OF t] assms(5) c a w t' present spec
      by (cases p; cases q) auto
  qed
qed

text \<open>
  A replicated message that is reported as a duplicate has its id in the database and
  changes nothing; one that is accepted is published once to the subscribers; a failure
  publishes nothing.
\<close>

theorem ingest_replica_outcomes:
  assumes "json_library (js W)" and "sqlite_engine (sql W) view" and "store_weak view (n_store n)"
    and "storable m" and "ingest_replica W m n = (r, n')"
  shows "case r of
       Inr True \<Rightarrow> (\<exists>t. n_calls n' = n_calls n @ publish ''message'' t (n_events n))
     | Inr False \<Rightarrow> message_id m \<in> message_id ` set (t_messages (tables_of view (n_store n))) \<and>
         tables_of view (n_store n') = tables_of view (n_store n) \<and> n_calls n' = n_calls n
     | Inl e \<Rightarrow> n_calls n' = n_calls n"
  using ingest_replica_cases [OF assms] by (auto split: sum.splits bool.splits)

lemma sample_contains:
  "contains sample_engine (message_id (sample_message 1)) sample_store = (Inr False, sample_store)"
  "contains sample_engine (message_id (sample_message 1)) sample_stored = (Inr True, sample_stored)"
  by (simp_all add: contains_def statement_simps sample_engine_def sample_store_def sample_stored_def
      empty_refdb_def empty_tables_def insert_tables_def insert_row_def upsert_row_def fresh_def)

definition sample_ingested :: "refdb Node" where
  "sample_ingested = emit (publish ''message'' (sample_message_text (sample_message 1)) [(3, 4)])
     (sample_node\<lparr>n_store := sample_stored\<rparr>)"

lemma sample_ingest:
  "ingest_replica sample_env (sample_message 1) sample_node = (Inr True, sample_ingested)"
  "ingest_replica sample_env (sample_message 1) sample_ingested = (Inr False, sample_ingested)"
  using sample_contains sample_add
  by (simp_all add: ingest_replica_eq [OF sample_text [folded sample_env_fields(2)]] sample_ingested_def)

theorem ingest_replica_outcomes_witness:
  "\<exists>t. n_calls sample_ingested = n_calls sample_node @ publish ''message'' t (n_events sample_node)"
  using ingest_replica_outcomes [of sample_env ref_view, OF _ _ _ sample_storable sample_ingest(1)]
    sample_jsonc_library sample_engine_ok store_inv_weak [OF sample_store_inv] by simp

text \<open>
  C10: replication is idempotent: a message that conflicts with no row is stored by a first delivery
  that is accepted, and a second delivery that returns is reported as a duplicate, publishes nothing
  and changes no table, provided the SELECT that looks for the id in the second delivery runs to its
  end (\<open>SQLITE_DONE\<close>); \<open>contains\<close> takes a SELECT that fails for an absent row.
\<close>

theorem replica_idempotent:
  assumes "json_library (js W)" and "sqlite_engine (sql W) view" and "store_weak view (n_store n)"
    and "storable m" and "fresh m (tables_of view (n_store n))"
    and "ingest_replica W m n = (Inr True, n1)" and "ingest_replica W m n1 = (Inr b, n2)"
    and "fst (snd (run (sql W) sql_contains [SText (message_id m)] (store_db (n_store n1)))) = SQLITE_DONE"
  shows "m \<in> set (t_messages (tables_of view (n_store n1))) \<and> \<not> b \<and> n_calls n2 = n_calls n1 \<and>
    tables_of view (n_store n2) = tables_of view (n_store n1)"
proof -
  obtain b' where w: "store_weak view (n_store n1)"
    and spec: "add_effect m (tables_of view (n_store n)) (Inr b') (tables_of view (n_store n1))"
    using ingest_replica_cases [OF assms(1-4,6)] by auto
  have "b'" using add_effect_fresh [OF spec assms(5)] by blast
  then have m: "m \<in> set (t_messages (tables_of view (n_store n1)))"
    using add_effect_True spec by auto
  obtain t where t: "message_text (js W) m = Inr t"
    using json_library.message_text_total [OF assms(1)] by blast
  obtain c s where c: "contains (sql W) (message_id m) (n_store n1) = (c, s)" by fastforce
  then obtain p where p: "c = Inr p"
    using ingest_replica_eq [OF t, of n1] assms(7) by (cases c) auto
  have "view (store_db (n_store n1)) = (tables_of view (n_store n1), None)"
    using w by (simp add: store_weak_def tables_of_def prod_eq_iff)
  from sqlite_engine.contains_iff [OF assms(2) c [unfolded p] this assms(8)] m have "p" by blast
  then have "\<not> b" using ingest_replica_eq [OF t, of n1] assms(7) c p by simp
  with ingest_replica_cases [OF assms(1,2) w assms(4,7)] m show ?thesis by auto
qed

theorem replica_idempotent_witness:
  "sample_message 1 \<in> set (t_messages (tables_of ref_view (n_store sample_ingested))) \<and>
   ingest_replica sample_env (sample_message 1) sample_ingested = (Inr False, sample_ingested)"
proof -
  have f: "fresh (sample_message 1) (tables_of ref_view (n_store sample_node))"
    by (simp add: fresh_def tables_of_def sample_store_def ref_view_def empty_refdb_def empty_tables_def)
  have d: "fst (snd (run (sql sample_env) sql_contains args db)) = SQLITE_DONE" for args db
    by (simp add: sample_engine_def)
  from replica_idempotent [of sample_env ref_view, OF _ _ _ sample_storable f sample_ingest d]
    sample_jsonc_library sample_engine_ok store_inv_weak [OF sample_store_inv] sample_ingest(2)
  show ?thesis by simp
qed

section \<open>Where the ids are not checked\<close>

text \<open>
  A peer may send a message whose id does not belong to its origin and number; the store refuses
  the second message of an (origin, number) pair.
\<close>

definition forged_message :: ChatMessage where
  "forged_message = (sample_message 1)\<lparr>message_id := ''forged''\<rparr>"

lemma forged_add:
  "add sample_engine forged_message sample_stored =
     (Inr False, sample_stored\<lparr>store_db := (store_db sample_stored)\<lparr>last_changes := 0\<rparr>\<rparr>)"
  unfolding sample_engine_def sample_stored_def
  by (subst ref_add_duplicate)
     (simp_all add: empty_refdb_def empty_tables_def fresh_def sample_message_def forged_message_def
       insert_tables_def insert_row_def upsert_row_def)

lemma forged_contains: "contains sample_engine ''forged'' sample_stored = (Inr False, sample_stored)"
  by (simp add: contains_def statement_simps sample_engine_def sample_stored_def empty_refdb_def empty_tables_def
      insert_tables_def insert_row_def upsert_row_def fresh_def sample_message_def)

text \<open>
  C39: \<open>ingest_replica\<close> ignores the result of \<open>add\<close>: a message that the store refuses because its
  origin and number are taken is nevertheless published and reported as accepted.
\<close>

theorem ingest_replica_accepts_unstored:
  "\<exists>W (n :: refdb Node) m n'. json_library (js W :: json jsonc) \<and> sqlite_engine (sql W) ref_view \<and>
     store_inv ref_view (n_store n) \<and> accepted_message m \<and> ingest_replica W m n = (Inr True, n') \<and>
     m \<notin> set (messages (n_store n')) \<and> n_calls n' \<noteq> n_calls n"
proof (intro exI conjI)
  let ?n = "sample_node\<lparr>n_store := sample_stored\<rparr>"
  let ?n' = "emit (publish ''message'' (sample_message_text forged_message) [(3, 4)])
     (?n\<lparr>n_store := sample_stored\<lparr>store_db := (store_db sample_stored)\<lparr>last_changes := 0\<rparr>\<rparr>\<rparr>)"
  show "json_library (js sample_env)" using sample_jsonc_library by simp
  show "sqlite_engine (sql sample_env) ref_view" using sample_engine_ok by simp
  show "store_inv ref_view (n_store ?n)" using sample_stored_inv by simp
  show "accepted_message forged_message"
    using sample_message_accepted(1) by (simp add: accepted_message_def forged_message_def)
  show "ingest_replica sample_env forged_message ?n = (Inr True, ?n')"
    using forged_contains forged_add
    by (simp add: ingest_replica_eq [OF sample_text [folded sample_env_fields(2)]])
       (simp add: forged_message_def)
  show "forged_message \<notin> set (messages (n_store ?n'))"
    by (simp add: messages_def sample_stored_def forged_message_def sample_message_def)
  show "n_calls ?n' \<noteq> n_calls ?n" by simp
qed

section \<open>Sending to the peers\<close>

lemma broadcast_eq:
  "post_all (replication_post (ev W) (cfg_local_address C) t)
     (active_peers (current_time_ms (n_clock n)) (n_peers n)) (n_handles n) = (cs, ctxs, h) \<Longrightarrow>
   broadcast W C t n = emit cs (n\<lparr>n_pending := n_pending n @ ctxs, n_handles := h\<rparr>)"
  by (simp add: broadcast_def)

text \<open>
  \<open>broadcast\<close> leaks no connection: each connection it opens is released by the call itself or
  handed to exactly one pending response, and one handle is used per active peer.
\<close>

theorem broadcast_balance:
  "\<exists>cs ctxs. n_calls (broadcast W C t n) = n_calls n @ cs \<and> n_pending (broadcast W C t n) = n_pending n @ ctxs \<and>
     occurs (opens c) cs = occurs (closes c) cs + occurs (\<lambda>x. ctx_connection x = c) ctxs \<and>
     n_handles (broadcast W C t n) =
       n_handles n + length (active_peers (current_time_ms (n_clock n)) (n_peers n))"
proof -
  obtain cs ctxs h where p: "post_all (replication_post (ev W) (cfg_local_address C) t)
     (active_peers (current_time_ms (n_clock n)) (n_peers n)) (n_handles n) = (cs, ctxs, h)"
    by (metis prod_cases3)
  have "occurs (opens c) cs = occurs (closes c) cs + occurs (\<lambda>x. ctx_connection x = c) ctxs"
    using post_all_balance [OF _ p] post_request_balance by (simp add: replication_post_def)
  then show ?thesis
    using broadcast_eq [OF p] post_all_count [OF p] by auto
qed

text \<open>
  On a refused request the client code frees the request although \<open>evhttp_make_request\<close>
  has already freed it; the other outcomes free no request.
\<close>

theorem refused_request_freed_twice:
  "occurs (frees_request h) (fst (replication_post L la t p h)) = (if outcome L h = Refused then 2 else 0)"
  by (cases "outcome L h") (simp_all add: replication_post_def post_request_def Let_def)

end
