(* ===== verification/Les_Http_Api.thy ===== *)
theory Les_Http_Api
  imports Les_Service "HOL-Library.Product_Lexorder"
begin

text \<open>
  \<open>http_api.cpp\<close>: the routes of the daemon and their handlers.  A handler is an action on the
  node that appends the calls of its response; what it throws is turned into a response by
  \<open>handle_request\<close>.
\<close>

section \<open>Responses\<close>

definition error_body :: "bytes \<Rightarrow> bytes" where
  \<open>error_body code = ''{"error":"'' @ code @ ''"}''\<close>

definition too_large_body :: bytes where
  \<open>too_large_body = ''{"error":"message_too_large","max_bytes":2048}''\<close>

definition status_body :: "bytes \<Rightarrow> bytes" where
  \<open>status_body s = ''{"status":"'' @ s @ ''"}''\<close>

definition respond :: "('db, 'j) Env \<Rightarrow> HttpRequest \<Rightarrow> int \<Rightarrow> bytes \<Rightarrow> bytes \<Rightarrow> ('db Node, unit) action" where
  "respond W q status reason text = (\<lambda>n. (Inr (), emit (send_json (ev W) (handle q) status reason text) n))"

definition bad_request :: "('db, 'j) Env \<Rightarrow> HttpRequest \<Rightarrow> bytes \<Rightarrow> ('db Node, unit) action" where
  "bad_request W q text = respond W q HTTP_BADREQUEST ''Bad Request'' text"

definition send_unsupported_media_type :: "('db, 'j) Env \<Rightarrow> HttpRequest \<Rightarrow> ('db Node, unit) action" where
  "send_unsupported_media_type W q =
     respond W q 415 ''Unsupported Media Type'' (error_body ''content_type_must_be_application_json'')"

definition read_json_object ::
  "('db, 'j) Env \<Rightarrow> HttpRequest \<Rightarrow> nat \<Rightarrow> bool \<Rightarrow> bytes \<Rightarrow> ('db Node, 'j option) action" where
  "read_json_object W q limit require_complete invalid_json =
     (if \<not> has_json_content_type q
      then andthen (send_unsupported_media_type W q) (\<lambda>_. ret None)
      else
        andthen (lift_result (read_request_body q limit)) (\<lambda>text.
        andthen (lift_result (parse_json (js W) text)) (\<lambda>parsed.
          if \<not> parsed_ok parsed \<or> \<not> json_is_object (js W) (parsed_object parsed) \<or>
             (require_complete \<and> parse_end parsed \<noteq> length text)
          then andthen (bad_request W q invalid_json) (\<lambda>_. ret None)
          else ret (Some (parsed_object parsed)))))"

section \<open>Handlers without a request body\<close>

definition serve_asset :: "('db, 'j) Env \<Rightarrow> HttpRequest \<Rightarrow> bytes \<Rightarrow> bytes \<Rightarrow> ('db Node, unit) action" where
  "serve_asset W q filename ctype =
     andthen (lift_result (send_web_asset (ev W) (handle q) filename ctype)) (\<lambda>cs n. (Inr (), emit cs n))"

definition serve_index :: "('db, 'j) Env \<Rightarrow> Config \<Rightarrow> HttpRequest \<Rightarrow> ('db Node, unit) action" where
  "serve_index W C q = serve_asset W q ''index.html'' ''text/html; charset=utf-8''"

definition serve_stylesheet :: "('db, 'j) Env \<Rightarrow> Config \<Rightarrow> HttpRequest \<Rightarrow> ('db Node, unit) action" where
  "serve_stylesheet W C q = serve_asset W q ''style.css'' ''text/css; charset=utf-8''"

definition serve_script :: "('db, 'j) Env \<Rightarrow> Config \<Rightarrow> HttpRequest \<Rightarrow> ('db Node, unit) action" where
  "serve_script W C q = serve_asset W q ''app.js'' ''text/javascript; charset=utf-8''"

definition healthz_body :: bytes where
  \<open>healthz_body = ''{"status":"ok","service":"les-chatd","version":"'' @ app_version @ ''"}''\<close>

definition get_healthz :: "('db, 'j) Env \<Rightarrow> Config \<Rightarrow> HttpRequest \<Rightarrow> ('db Node, unit) action" where
  "get_healthz W C q = respond W q HTTP_OK ''OK'' healthz_body"

definition make_status_json :: "'j jsonc \<Rightarrow> Config \<Rightarrow> int \<Rightarrow> bytes result" where
  "make_status_json J C offset_ms =
     result_bind (build_object J
       [(''status'', new_string J ''ok''),
        (''service'', new_string J service_name),
        (''version'', new_string J app_version),
        (''node_id'', new_string J (c_str (node_id (cfg_identity C)))),
        (''callsign'', new_string J (c_str (node_callsign (cfg_identity C)))),
        (''bind_address'', new_string J (c_str (cfg_bind_address C))),
        (''port'', new_int J (int (unat (cfg_port C)))),
        (''time_offset_ms'', new_int64 J offset_ms)])
     (serialize_json J)"

definition get_status :: "('db, 'j) Env \<Rightarrow> Config \<Rightarrow> HttpRequest \<Rightarrow> ('db Node, unit) action" where
  "get_status W C q = (\<lambda>n.
     andthen (lift_result (make_status_json (js W) C (current_time_offset_ms (n_clock n))))
       (respond W q HTTP_OK ''OK'') n)"

text \<open>The comparator of \<open>std::stable_sort\<close>, and the key it orders by.\<close>

definition message_less :: "ChatMessage \<Rightarrow> ChatMessage \<Rightarrow> bool" where
  "message_less left right =
     (if created_at_ms left \<noteq> created_at_ms right then created_at_ms left < created_at_ms right
      else if origin left \<noteq> origin right then origin left < origin right
      else if sequence left \<noteq> sequence right then sequence left < sequence right
      else message_id left < message_id right)"

definition message_key :: "ChatMessage \<Rightarrow> int \<times> bytes \<times> u64 \<times> bytes" where
  "message_key m = (created_at_ms m, origin m, sequence m, message_id m)"

fun stable_insert :: "('a \<Rightarrow> 'a \<Rightarrow> bool) \<Rightarrow> 'a \<Rightarrow> 'a list \<Rightarrow> 'a list" where
  "stable_insert lt x [] = [x]"
| "stable_insert lt x (y # ys) = (if lt y x then y # stable_insert lt x ys else x # y # ys)"

definition stable_sort :: "('a \<Rightarrow> 'a \<Rightarrow> bool) \<Rightarrow> 'a list \<Rightarrow> 'a list" where
  "stable_sort lt xs = foldr (stable_insert lt) xs []"

definition counted_array :: "'j jsonc \<Rightarrow> bytes \<Rightarrow> ('a \<Rightarrow> 'j result) \<Rightarrow> 'a list \<Rightarrow> bytes result" where
  "counted_array J name item xs =
     result_bind (make_json_object J) (\<lambda>root.
     result_bind (make_json_array J) (\<lambda>items.
     result_bind (map_result item xs) (\<lambda>vs.
       serialize_json J (add_members J
         [(name, fold (\<lambda>v a. array_add J a v) vs items), (''count'', new_int64 J (int (length xs)))] root))))"

definition get_messages :: "('db, 'j) Env \<Rightarrow> Config \<Rightarrow> HttpRequest \<Rightarrow> ('db Node, unit) action" where
  "get_messages W C q = (\<lambda>n.
     andthen (lift_result (counted_array (js W) ''messages'' (message_to_json (js W))
         (stable_sort message_less (service_messages n))))
       (respond W q HTTP_OK ''OK'') n)"

definition peer_to_json :: "'j jsonc \<Rightarrow> Peer \<Rightarrow> 'j result" where
  "peer_to_json J peer =
     build_object J
       [(''node_id'', new_string J (c_str (peer_node_id peer))),
        (''callsign'', new_string J (c_str (peer_callsign peer))),
        (''address'', new_string J (c_str (address peer))),
        (''http_port'', new_int J (int (unat (http_port peer)))),
        (''app_version'', new_string J (c_str (peer_app_version peer))),
        (''last_seen_ms'', new_int64 J (last_seen_ms peer))]"

definition get_peers :: "('db, 'j) Env \<Rightarrow> Config \<Rightarrow> HttpRequest \<Rightarrow> ('db Node, unit) action" where
  "get_peers W C q = (\<lambda>n.
     andthen (lift_result (counted_array (js W) ''peers'' (peer_to_json (js W))
         (active_peers (current_time_ms (n_clock n)) (n_peers n))))
       (respond W q HTTP_OK ''OK'') n)"

definition open_event_stream :: "('db, 'j) Env \<Rightarrow> Config \<Rightarrow> HttpRequest \<Rightarrow> ('db Node, unit) action" where
  "open_event_stream W C q = (\<lambda>n.
     case subscribe (handle q) (connection q) (n_events n) of (s, cs) \<Rightarrow> (Inr (), emit cs (n\<lparr>n_events := s\<rparr>)))"

section \<open>Handlers with a request body\<close>

definition created_json :: "'j jsonc \<Rightarrow> ChatMessage \<Rightarrow> bytes result" where
  "created_json J message =
     result_bind (make_json_object J) (\<lambda>response.
     result_bind (message_to_json J message) (\<lambda>message_json.
       serialize_json J (add_members J [(''message'', message_json)] response)))"

text \<open>The checks of the body, in the order of the source: the error response, or the text.\<close>

datatype body_check = BodyError int bytes bytes | BodyText bytes

definition check_body :: "'j jsonc \<Rightarrow> 'j \<Rightarrow> body_check" where
  "check_body J object =
     (case object_get_ex J object ''body'' of
        None \<Rightarrow> BodyError HTTP_BADREQUEST ''Bad Request'' (error_body ''body_must_be_string'')
      | Some v \<Rightarrow>
          if is_nullptr J v \<or> \<not> object_is_type J v json_type_string
          then BodyError HTTP_BADREQUEST ''Bad Request'' (error_body ''body_must_be_string'')
          else
            (case get_string J v of
               None \<Rightarrow> BodyError HTTP_BADREQUEST ''Bad Request'' (error_body ''message_empty'')
             | Some body_data \<Rightarrow>
                 let body_length = get_string_len J v; text = take (nat body_length) body_data in
                 if body_length \<le> 0 then BodyError HTTP_BADREQUEST ''Bad Request'' (error_body ''message_empty'')
                 else if length text > max_message_bytes then BodyError 413 ''Payload Too Large'' too_large_body
                 else if \<not> is_valid_utf8 text
                   then BodyError HTTP_BADREQUEST ''Bad Request'' (error_body ''message_must_be_valid_utf8'')
                 else BodyText text))"

definition create_message :: "('db, 'j) Env \<Rightarrow> Config \<Rightarrow> HttpRequest \<Rightarrow> ('db Node, unit) action" where
  "create_message W C q =
     andthen (read_json_object W q max_request_bytes False (error_body ''invalid_json'')) (\<lambda>parsed.
       case parsed of
         None \<Rightarrow> ret ()
       | Some object \<Rightarrow>
           (case check_body (js W) object of
              BodyError status reason text \<Rightarrow> respond W q status reason text
            | BodyText text \<Rightarrow>
                andthen (create_local W C text) (\<lambda>message.
                andthen (lift_result (created_json (js W) message))
                  (respond W q HTTP_OK ''OK''))))"

definition replicate_message :: "('db, 'j) Env \<Rightarrow> Config \<Rightarrow> HttpRequest \<Rightarrow> ('db Node, unit) action" where
  "replicate_message W C q =
     andthen (read_json_object W q max_request_bytes True (error_body ''invalid_message'')) (\<lambda>parsed.
       case parsed of
         None \<Rightarrow> ret ()
       | Some object \<Rightarrow>
           (case parse_message (js W) object of
              None \<Rightarrow> bad_request W q (error_body ''invalid_message'')
            | Some message \<Rightarrow>
                andthen (ingest_replica W message) (\<lambda>accepted.
                  respond W q HTTP_OK ''OK''
                    (if accepted then status_body ''accepted'' else status_body ''duplicate''))))"

text \<open>The checks that \<open>sync_summary\<close> and \<open>sync_messages\<close> share.\<close>

definition sync_header :: "'j jsonc \<Rightarrow> bytes \<Rightarrow> 'j \<Rightarrow> bool" where
  "sync_header J kind object \<longleftrightarrow>
     (case object_get_ex J object ''protocol'' of None \<Rightarrow> False | Some protocol \<Rightarrow>
        object_is_type J protocol json_type_int \<and> get_int J protocol = protocol_version) \<and>
     (case object_get_ex J object ''type'' of None \<Rightarrow> False | Some type' \<Rightarrow>
        object_is_type J type' json_type_string \<and>
        (case get_string J type' of None \<Rightarrow> False | Some text \<Rightarrow> c_str text = kind))"

definition origins_json :: "'j jsonc \<Rightarrow> (bytes \<times> u64) list \<Rightarrow> 'j \<Rightarrow> 'j" where
  "origins_json J summary origins =
     add_members J (map (\<lambda>(orig, n). (c_str orig, new_int64 J (sint n))) summary) origins"

definition summary_json :: "'j jsonc \<Rightarrow> (bytes \<times> u64) list \<Rightarrow> 'j \<Rightarrow> 'j \<Rightarrow> 'j" where
  "summary_json J summary root origins =
     add_members J
       [(''protocol'', new_int J protocol_version), (''type'', new_string J ''sync_summary''),
        (''origins'', origins_json J summary origins)] root"

definition sync_summary :: "('db, 'j) Env \<Rightarrow> Config \<Rightarrow> HttpRequest \<Rightarrow> ('db Node, unit) action" where
  "sync_summary W C q =
     andthen (read_json_object W q max_request_bytes True (error_body ''invalid_sync_summary'')) (\<lambda>parsed.
       case parsed of
         None \<Rightarrow> ret ()
       | Some object \<Rightarrow>
           if \<not> (sync_header (js W) ''sync_summary'' object \<and>
              (case object_get_ex (js W) object ''origins'' of None \<Rightarrow> False
               | Some origins \<Rightarrow> object_is_type (js W) origins json_type_object))
           then bad_request W q (error_body ''invalid_sync_summary'')
           else
             andthen (lift_result (make_json_object (js W))) (\<lambda>response.
             andthen (lift_result (make_json_object (js W))) (\<lambda>local_origins.
             andthen (service_summary W) (\<lambda>summary.
             andthen (lift_result (serialize_json (js W) (summary_json (js W) summary response local_origins)))
               (respond W q HTTP_OK ''OK'')))))"

text \<open>The loop over a batch: the number of new messages, or nothing when it sent an error.\<close>

fun sync_loop :: "('db, 'j) Env \<Rightarrow> HttpRequest \<Rightarrow> 'j list \<Rightarrow> nat \<Rightarrow> ('db Node, nat option) action" where
  "sync_loop W q [] accepted = ret (Some accepted)"
| "sync_loop W q (item # items) accepted =
     (case parse_message (js W) item of
        None \<Rightarrow> andthen (bad_request W q (error_body ''invalid_sync_message'')) (\<lambda>_. ret None)
      | Some message \<Rightarrow>
          andthen (ingest_sync W message) (\<lambda>b.
            sync_loop W q items (if b then accepted + 1 else accepted)))"

definition array_items :: "'j jsonc \<Rightarrow> 'j \<Rightarrow> 'j list" where
  "array_items J a = map (array_get_idx J a) [0..<array_length J a]"

definition accepted_body :: "nat \<Rightarrow> bytes" where
  \<open>accepted_body k = ''{"status":"accepted","count":'' @ to_string k @ ''}''\<close>

definition sync_messages :: "('db, 'j) Env \<Rightarrow> Config \<Rightarrow> HttpRequest \<Rightarrow> ('db Node, unit) action" where
  "sync_messages W C q =
     andthen (read_json_object W q max_sync_request_bytes True (error_body ''invalid_sync_messages'')) (\<lambda>parsed.
       case parsed of
         None \<Rightarrow> ret ()
       | Some object \<Rightarrow>
           (case object_get_ex (js W) object ''messages'' of
              None \<Rightarrow> bad_request W q (error_body ''invalid_sync_messages'')
            | Some batch \<Rightarrow>
                if \<not> sync_header (js W) ''sync_messages'' object \<or>
                   \<not> object_is_type (js W) batch json_type_array \<or>
                   array_length (js W) batch > max_sync_batch_messages
                then bad_request W q (error_body ''invalid_sync_messages'')
                else
                  andthen (sync_loop W q (array_items (js W) batch) 0) (\<lambda>accepted.
                    case accepted of
                      None \<Rightarrow> ret ()
                    | Some k \<Rightarrow> respond W q HTTP_OK ''OK'' (accepted_body k))))"

section \<open>Routing\<close>

type_synonym ('db, 'j) handler = "('db, 'j) Env \<Rightarrow> Config \<Rightarrow> HttpRequest \<Rightarrow> ('db Node, unit) action"

definition routes :: "(evhttp_cmd_type \<times> bytes \<times> ('db, 'j) handler) list" where
  "routes =
     [(EVHTTP_REQ_GET, ''/'', serve_index),
      (EVHTTP_REQ_GET, ''/style.css'', serve_stylesheet),
      (EVHTTP_REQ_GET, ''/app.js'', serve_script),
      (EVHTTP_REQ_GET, ''/healthz'', get_healthz),
      (EVHTTP_REQ_GET, ''/api/v1/status'', get_status),
      (EVHTTP_REQ_GET, ''/api/v1/messages'', get_messages),
      (EVHTTP_REQ_POST, ''/api/v1/messages'', create_message),
      (EVHTTP_REQ_GET, ''/api/v1/peers'', get_peers),
      (EVHTTP_REQ_POST, ''/api/v1/replicate'', replicate_message),
      (EVHTTP_REQ_POST, ''/api/v1/sync/summary'', sync_summary),
      (EVHTTP_REQ_POST, ''/api/v1/sync/messages'', sync_messages),
      (EVHTTP_REQ_GET, ''/api/v1/events'', open_event_stream)]"

fun route_loop :: "(evhttp_cmd_type \<times> bytes \<times> ('db, 'j) handler) list \<Rightarrow> bytes \<Rightarrow> bool \<Rightarrow> ('db, 'j) handler" where
  "route_loop [] path path_exists W C q =
     (if path_exists
      then respond W q HTTP_BADMETHOD ''Method Not Allowed'' (error_body ''method_not_allowed'')
      else respond W q HTTP_NOTFOUND ''Not Found'' (error_body ''not_found''))"
| "route_loop ((method, p, h) # rs) path path_exists W C q =
     (if p \<noteq> path then route_loop rs path path_exists W C q
      else if method = command q then h W C q
      else route_loop rs path True W C q)"

definition process_request :: "('db, 'j) handler" where
  "process_request W C q =
     (let path = request_path (ev W) q in
      if path = [] then bad_request W q (error_body ''invalid_uri'')
      else route_loop routes path False W C q)"

definition handle_request :: "('db, 'j) Env \<Rightarrow> Config \<Rightarrow> HttpRequest \<Rightarrow> 'db Node \<Rightarrow> 'db Node" where
  "handle_request W C q n =
     (case process_request W C q n of
        (Inr _, n') \<Rightarrow> n'
      | (Inl (LengthError _), n') \<Rightarrow>
          emit (send_json (ev W) (handle q) 413 ''Payload Too Large'' (error_body ''request_too_large'')) n'
      | (Inl _, n') \<Rightarrow>
          emit (send_json (ev W) (handle q) HTTP_INTERNAL ''Internal Server Error'' (error_body ''internal_error'')) n')"

section \<open>Exactly one answer\<close>

text \<open>
  \<open>replying h P a\<close>: the calls of \<open>a\<close> answer the request \<open>h\<close> once when \<open>a\<close> returns a value
  in \<open>P\<close>, not at all otherwise, and no other request.
\<close>

definition replying :: "request \<Rightarrow> ('a \<Rightarrow> bool) \<Rightarrow> ('db Node, 'a) action \<Rightarrow> bool" where
  "replying h P a \<longleftrightarrow>
     (\<forall>n r n'. a n = (r, n') \<longrightarrow>
        (\<exists>cs. n_calls n' = n_calls n @ cs \<and>
          (\<forall>x. occurs (answers x) cs = (if x = h \<and> (case r of Inl _ \<Rightarrow> False | Inr v \<Rightarrow> P v) then 1 else 0))))"

lemma replyingI:
  assumes "\<And>n r n'. a n = (r, n') \<Longrightarrow> \<exists>cs. n_calls n' = n_calls n @ cs \<and>
     (\<forall>x. occurs (answers x) cs = (if x = h \<and> (case r of Inl _ \<Rightarrow> False | Inr v \<Rightarrow> P v) then 1 else 0))"
  shows "replying h P a"
  using assms by (simp add: replying_def)

lemma replying_silentI:
  assumes "\<And>n. n_calls (snd (a n)) = n_calls n"
  shows "replying h (\<lambda>_. False) a"
  using assms by (intro replyingI) (metis append_Nil2 case_sum_o_inj snd_conv sum.case_eq_if occurs_simps(1))

lemma replying_andthen:
  assumes a: "replying h P a" and f: "\<And>v. \<not> P v \<Longrightarrow> replying h Q (f v)"
    and p: "\<And>v. P v \<Longrightarrow> \<exists>w. f v = ret w \<and> Q w"
  shows "replying h Q (andthen a f)"
proof (rule replyingI)
  fix n r n'
  assume x: "andthen a f n = (r, n')"
  obtain r1 n1 where 1: "a n = (r1, n1)" by fastforce
  obtain cs where cs: "n_calls n1 = n_calls n @ cs"
      "\<And>x. occurs (answers x) cs = (if x = h \<and> (case r1 of Inl _ \<Rightarrow> False | Inr v \<Rightarrow> P v) then 1 else 0)"
    using a 1 unfolding replying_def by meson
  show "\<exists>cs. n_calls n' = n_calls n @ cs \<and>
     (\<forall>x. occurs (answers x) cs = (if x = h \<and> (case r of Inl _ \<Rightarrow> False | Inr v \<Rightarrow> Q v) then 1 else 0))"
  proof (cases r1)
    case (Inl e)
    then show ?thesis using x 1 cs by (intro exI [of _ cs]) (auto simp: andthen_def)
  next
    case (Inr v)
    then have fv: "f v n1 = (r, n')" using x 1 by (simp add: andthen_def)
    show ?thesis
    proof (cases "P v")
      case True
      then obtain w where "f v = ret w" "Q w" using p by blast
      then show ?thesis using fv cs Inr True by (intro exI [of _ cs]) auto
    next
      case False
      then obtain ds where "n_calls n' = n_calls n1 @ ds"
          "\<And>x. occurs (answers x) ds = (if x = h \<and> (case r of Inl _ \<Rightarrow> False | Inr v \<Rightarrow> Q v) then 1 else 0)"
        using f fv unfolding replying_def by meson
      then show ?thesis using cs Inr False by (intro exI [of _ "cs @ ds"]) auto
    qed
  qed
qed

lemma replying_then:
  "replying h (\<lambda>_. False) a \<Longrightarrow> (\<And>v. replying h Q (f v)) \<Longrightarrow> replying h Q (andthen a f)"
  by (rule replying_andthen [where P = "\<lambda>_. False"]) auto

lemma replying_ret: "\<not> P v \<Longrightarrow> replying h P (ret v)"
  by (rule replyingI) auto

lemma replying_lift: "replying h (\<lambda>_. False) (lift_result r)"
  by (rule replying_silentI) simp

lemma replying_on_store: "replying h (\<lambda>_. False) (on_store a)"
  by (rule replying_silentI) (simp add: on_store_eq)

lemma replying_respond: "replying (handle q) (\<lambda>_. True) (respond W q st reason t)"
  by (rule replyingI) (auto simp: respond_def)

lemma replying_respond_then:
  "Q w \<Longrightarrow> replying (handle q) Q (andthen (respond W q st reason t) (\<lambda>_. ret w))"
  by (rule replying_andthen [OF replying_respond]) auto

lemma no_answers_publish: "occurs (answers x) (publish nm d s) = 0"
  by (induction s) auto

lemma no_answers_post: "post_request L la cb hs path pl addr port h = (cs, ctx) \<Longrightarrow> occurs (answers x) cs = 0"
proof -
  have "occurs (answers x) (post_headers r hs) = 0" for r
    by (induction hs) (auto simp: post_headers_def)
  then show "post_request L la cb hs path pl addr port h = (cs, ctx) \<Longrightarrow> occurs (answers x) cs = 0"
    by (auto simp: post_request_def Let_def split: if_splits)
qed

lemma no_answers_post_all:
  assumes "\<And>p h cs ctx. post p h = (cs, ctx) \<Longrightarrow> occurs (answers x) cs = 0"
  shows "post_all post ps h = (cs, ctxs, h') \<Longrightarrow> occurs (answers x) cs = 0"
proof (induction ps arbitrary: h cs ctxs h')
  case Nil
  then show ?case by simp
next
  case (Cons p ps)
  obtain cs1 ctx where a: "post p h = (cs1, ctx)" by fastforce
  obtain cs2 ctxs2 h2 where b: "post_all post ps (Suc h) = (cs2, ctxs2, h2)" by (metis prod_cases3)
  show ?case using Cons.IH [OF b] assms [OF a] Cons.prems a b by auto
qed

lemma replying_publish: "replying h (\<lambda>_. False) (publish_message W m)"
  by (rule replyingI) (auto simp: publish_message_eq no_answers_publish split: sum.splits)

lemma broadcast_calls:
  "\<exists>cs. n_calls (broadcast W C t n) = n_calls n @ cs \<and> (\<forall>x. occurs (answers x) cs = 0)"
proof -
  obtain cs ctxs h where p: "post_all (replication_post (ev W) (cfg_local_address C) t)
     (active_peers (current_time_ms (n_clock n)) (n_peers n)) (n_handles n) = (cs, ctxs, h)"
    by (metis prod_cases3)
  have "occurs (answers x) cs = 0" for x
    using no_answers_post_all [OF _ p] no_answers_post by (simp add: replication_post_def)
  then show ?thesis using broadcast_eq [OF p] by auto
qed

lemma replying_replicate: "replying h (\<lambda>_. False) (replicate_to_peers W C m)"
  by (rule replyingI) (auto simp: replicate_to_peers_eq broadcast_calls split: sum.splits)

lemma replying_calls: "replying h P a \<Longrightarrow> a n1 = (r, n') \<Longrightarrow> n_calls n1 = n_calls n \<Longrightarrow>
   \<exists>cs. n_calls n' = n_calls n @ cs \<and>
     (\<forall>x. occurs (answers x) cs = (if x = h \<and> (case r of Inl _ \<Rightarrow> False | Inr v \<Rightarrow> P v) then 1 else 0))"
  unfolding replying_def by metis

lemma replying_create_local: "replying h (\<lambda>_. False) (create_local (W :: ('b, 'j) Env) C t)"
proof (rule replyingI)
  fix n :: "'b Node" and r n'
  let ?m = "local_message C (n_next_sequence n) (current_time_ms (n_clock n)) t"
  let ?a = "andthen (on_store (add (sql W) ?m)) (\<lambda>_. andthen (publish_message W ?m) (\<lambda>_.
     andthen (replicate_to_peers W C ?m) (\<lambda>_. ret ?m)))"
  assume "create_local W C t n = (r, n')"
  then have x: "?a (n\<lparr>n_next_sequence := n_next_sequence n + 1\<rparr>) = (r, n')"
    by (simp add: create_local_def Let_def)
  have "replying h (\<lambda>_. False) ?a"
    by (intro replying_then replying_on_store replying_publish replying_replicate replying_ret) simp
  from replying_calls [OF this x, of n] show "\<exists>cs. n_calls n' = n_calls n @ cs \<and> (\<forall>x. occurs (answers x) cs =
      (if x = h \<and> (case r of Inl _ \<Rightarrow> False | Inr v \<Rightarrow> False) then 1 else 0))"
    by simp
qed

lemma replying_ingest:
  "replying h (\<lambda>_. False) (ingest_replica W m)" "replying h (\<lambda>_. False) (ingest_sync W m)"
  unfolding ingest_replica_def ingest_sync_def
  by (auto intro!: replying_then replying_on_store replying_publish replying_ret)

lemma replying_read_json: "replying (handle q) (\<lambda>v. v = None) (read_json_object W q limit complete err)"
  unfolding read_json_object_def send_unsupported_media_type_def bad_request_def
  by (auto intro!: replying_then [OF replying_lift] replying_respond_then replying_ret)

lemma replying_body:
  assumes "\<And>v. replying (handle q) (\<lambda>_. True) (f v)"
  shows "replying (handle q) (\<lambda>_. True)
    (andthen (read_json_object W q limit complete err) (\<lambda>parsed. case parsed of None \<Rightarrow> ret () | Some v \<Rightarrow> f v))"
  using assms by (intro replying_andthen [OF replying_read_json]) auto

lemma replying_sync_loop: "replying (handle q) (\<lambda>v. v = None) (sync_loop W q items k)"
  by (induction items arbitrary: k)
     (auto intro!: replying_ret replying_respond_then replying_then [OF replying_ingest(2)]
       simp: bad_request_def split: option.splits)

lemmas replying_rules = replying_respond replying_then [OF replying_lift] replying_then [OF replying_create_local]
  replying_then [OF replying_ingest(1)] replying_then [OF replying_on_store]

lemma replying_assets: "replying (handle q) (\<lambda>_. True) (serve_asset W q f ct)"
  unfolding serve_asset_def
proof (rule replyingI)
  fix n r n'
  assume "andthen (lift_result (send_web_asset (ev W) (handle q) f ct)) (\<lambda>cs n. (Inr (), emit cs n)) n = (r, n')"
  then show "\<exists>cs. n_calls n' = n_calls n @ cs \<and> (\<forall>x. occurs (answers x) cs =
      (if x = handle q \<and> (case r of Inl _ \<Rightarrow> False | Inr v \<Rightarrow> True) then 1 else 0))"
    by (cases "load_web_asset (ev W) f") (auto simp: andthen_def send_web_asset_def)
qed

lemma replying_open: "replying (handle q) (\<lambda>_. True) (open_event_stream W C q)"
  by (rule replyingI) (auto simp: open_event_stream_def subscribe_def)

lemma replying_state: "(\<And>n. replying h P (a n)) \<Longrightarrow> replying h P (\<lambda>n. a n n)"
  unfolding replying_def by blast

lemma replying_create: "replying (handle q) (\<lambda>_. True) (create_message W C q)"
  unfolding create_message_def
  by (rule replying_body) (auto intro!: replying_rules split: body_check.splits)

lemma replying_replica: "replying (handle q) (\<lambda>_. True) (replicate_message W C q)"
  unfolding replicate_message_def bad_request_def
  by (rule replying_body) (auto intro!: replying_rules split: option.splits)

lemma replying_summary: "replying (handle q) (\<lambda>_. True) (sync_summary W C q)"
  unfolding sync_summary_def bad_request_def service_summary_def
  by (rule replying_body) (auto intro!: replying_rules)

lemma replying_batch: "replying (handle q) (\<lambda>_. True) (sync_messages W C q)"
  unfolding sync_messages_def bad_request_def
  by (rule replying_body)
     (auto intro!: replying_rules replying_andthen [OF replying_sync_loop] split: option.splits)

lemma replying_queries:
  "replying (handle q) (\<lambda>_. True) (get_status W C q)"
  "replying (handle q) (\<lambda>_. True) (get_messages W C q)"
  "replying (handle q) (\<lambda>_. True) (get_peers W C q)"
  unfolding get_status_def get_messages_def get_peers_def
  by (rule replying_state, rule replying_then [OF replying_lift replying_respond])+

lemma replying_pages:
  "replying (handle q) (\<lambda>_. True) (serve_index W C q)"
  "replying (handle q) (\<lambda>_. True) (serve_stylesheet W C q)"
  "replying (handle q) (\<lambda>_. True) (serve_script W C q)"
  "replying (handle q) (\<lambda>_. True) (get_healthz W C q)"
  unfolding serve_index_def serve_stylesheet_def serve_script_def get_healthz_def
  by (rule replying_assets replying_respond)+

lemma replying_routes: "(cmd, p, h) \<in> set routes \<Longrightarrow> replying (handle q) (\<lambda>_. True) (h W C q)"
  by (auto simp: routes_def replying_queries replying_pages replying_create replying_replica replying_summary
      replying_batch replying_open)

lemma replying_loop:
  "(\<And>cmd p h. (cmd, p, h) \<in> set rs \<Longrightarrow> replying (handle q) (\<lambda>_. True) (h W C q)) \<Longrightarrow>
   replying (handle q) (\<lambda>_. True) (route_loop rs path found W C q)"
proof (induction rs arbitrary: found)
  case Nil
  then show ?case by (auto intro: replying_respond)
next
  case (Cons r rs)
  obtain cmd p h where r: "r = (cmd, p, h)" by (metis prod_cases3)
  have "replying (handle q) (\<lambda>_. True) (h W C q)"
    using Cons.prems r by (metis list.set_intros(1))
  moreover have "replying (handle q) (\<lambda>_. True) (route_loop rs path b W C q)" for b
    using Cons by (metis list.set_intros(2))
  ultimately show ?case unfolding r by simp
qed

lemma replying_process: "replying (handle q) (\<lambda>_. True) (process_request W C q)"
proof -
  have "replying (handle q) (\<lambda>_. True) (route_loop routes path False W C q)" for path
    by (rule replying_loop) (rule replying_routes)
  then show ?thesis
    using replying_respond by (auto simp: process_request_def bad_request_def Let_def)
qed

section \<open>Properties\<close>

text \<open>
  C8: every request is answered exactly once: whatever the handler does and throws, the calls
  of \<open>handle_request\<close> hold one reply (or one started stream) for the request and none for
  another request.
\<close>

theorem handle_request_answers_once:
  "\<exists>cs. n_calls (handle_request W C q n) = n_calls n @ cs \<and>
     (\<forall>r. occurs (answers r) cs = (if r = handle q then 1 else 0))"
proof -
  obtain r n' where p: "process_request W C q n = (r, n')" by fastforce
  obtain cs where cs: "n_calls n' = n_calls n @ cs"
      "\<forall>x. occurs (answers x) cs = (if x = handle q \<and> (case r of Inl _ \<Rightarrow> False | Inr v \<Rightarrow> True) then 1 else 0)"
    using replying_process [of q W C] p unfolding replying_def by meson
  show ?thesis
  proof (cases r)
    case (Inr u)
    then show ?thesis using p cs by (intro exI [of _ cs]) (simp add: handle_request_def)
  next
    case (Inl e)
    then obtain st reason tx where "handle_request W C q n = emit (send_json (ev W) (handle q) st reason tx) n'"
      using p by (cases e) (auto simp: handle_request_def)
    then show ?thesis
      using cs Inl by (intro exI [of _ "cs @ send_json (ev W) (handle q) st reason tx"]) simp
  qed
qed

text \<open>
  C29: the loop over the route table is a lookup: the handler of the pair of method and path runs;
  without one the answer is 405 when another method has the path and 404 when none has.
\<close>

theorem process_request_routes:
  assumes "request_path (ev W) q = path" and "path \<noteq> []"
  shows "process_request (W :: ('db, 'j) Env) C q =
    (case map_of (map (\<lambda>(m, p, h). ((m, p), h)) routes) (command q, path) of
       Some h \<Rightarrow> h W C q
     | None \<Rightarrow>
         if path \<in> set (map (\<lambda>r. fst (snd r)) (routes :: (evhttp_cmd_type \<times> bytes \<times> ('db, 'j) handler) list))
         then respond W q 405 ''Method Not Allowed'' (error_body ''method_not_allowed'')
         else respond W q 404 ''Not Found'' (error_body ''not_found''))"
proof -
  have loop: "route_loop rs path found W C q =
    (case map_of (map (\<lambda>(m, p, h). ((m, p), h)) rs) (command q, path) of
       Some h \<Rightarrow> h W C q
     | None \<Rightarrow> if found \<or> path \<in> set (map (\<lambda>r. fst (snd r)) rs)
         then respond W q 405 ''Method Not Allowed'' (error_body ''method_not_allowed'')
         else respond W q 404 ''Not Found'' (error_body ''not_found''))"
    for rs :: "(evhttp_cmd_type \<times> bytes \<times> ('db, 'j) handler) list" and found
  proof (induction rs arbitrary: found)
    case Nil
    then show ?case by (simp add: http_codes)
  next
    case (Cons r rs)
    then show ?case by (cases r) (simp split: option.splits)
  qed
  show ?thesis using assms by (simp add: process_request_def loop)
qed

definition sample_request :: "evhttp_cmd_type \<Rightarrow> bytes \<Rightarrow> bytes \<Rightarrow> HttpRequest" where
  "sample_request m p b = \<lparr>handle = 1, connection = 2, command = m, uri = Some p,
     content_type = Some ''application/json'', input = b, copied = int (length b)\<rparr>"

lemma command_sample [simp]: "command (sample_request m p b) = m"
  by (simp add: sample_request_def)

lemma sample_path [simp]: "request_path sample_libevent (sample_request m p b) = p"
  by (simp add: request_path_def sample_request_def sample_libevent_def)

theorem process_request_routes_witness:
  "process_request sample_env sample_config (sample_request EVHTTP_REQ_POST ''/healthz'' []) =
     respond sample_env (sample_request EVHTTP_REQ_POST ''/healthz'' []) 405 ''Method Not Allowed''
       (error_body ''method_not_allowed'')"
  using process_request_routes [of sample_env "sample_request EVHTTP_REQ_POST ''/healthz'' []" "''/healthz''"
      sample_config]
  by (simp add: routes_def command_sample)

section \<open>The order of the messages\<close>

lemma message_less_key: "message_less l r \<longleftrightarrow> message_key l < message_key r"
  by (auto simp: message_less_def message_key_def less_prod_def)

lemma stable_insert_key: "stable_insert message_less x ys = insort_key message_key x ys"
  by (induction ys) (auto simp: message_less_key not_less)

lemma stable_sort_key: "stable_sort message_less ms = sort_key message_key ms"
  by (simp add: stable_sort_def sort_key_def stable_insert_key [abs_def])

lemma sorted_messages:
  assumes "distinct (map message_id ms)"
  shows "sorted_wrt (\<lambda>l r. message_key l < message_key r) (sort_key message_key ms)"
proof -
  have "distinct (map message_key (sort_key message_key ms))"
    using assms by (auto simp: distinct_map inj_on_def message_key_def)
  then have "sorted_wrt (<) (map message_key (sort_key message_key ms))"
    by (simp add: strict_sorted_iff)
  then show ?thesis by (simp add: sorted_wrt_map)
qed

lemma map_result_all: "(\<And>x. \<exists>y. f x = Inr y) \<Longrightarrow> \<exists>ys. map_result f xs = Inr ys"
proof (induction xs)
  case Nil
  then show ?case by simp
next
  case (Cons x xs)
  then obtain y ys where "f x = Inr y" "map_result f xs = Inr ys" by meson
  then show ?case by simp
qed

context json_library
begin

lemma counted_messages_total: "\<exists>t. counted_array J nm (message_to_json J) ms = Inr t"
proof -
  obtain root where r: "make_json_object J = Inr root"
    using new_object_ok by (auto simp: make_json_object_def split: option.splits)
  obtain items where a: "make_json_array J = Inr items"
    using new_array_ok by (auto simp: make_json_array_def split: option.splits)
  have "\<exists>v. message_to_json J m = Inr v" for m
    using build_object_ok [of "message_members J m"] by (auto simp: message_to_json_def)
  then obtain vs where "map_result (message_to_json J) ms = Inr vs" using map_result_all by blast
  then show ?thesis using r a serialize_total by (simp add: counted_array_def)
qed

end

text \<open>
  C30: \<open>GET /messages\<close> shows the same text on every node that holds the same messages, in whatever
  order they arrived: the messages of the copy in memory, each once, strictly ascending by time, then
  origin, then number, then id (the ids being distinct, which is part of the store invariant).
\<close>

theorem message_order_deterministic:
  assumes "json_library (js W)" and "mset (messages (n_store n)) = mset (messages (n_store n'))"
    and "distinct (map message_id (messages (n_store n)))"
  shows "\<exists>ms t. mset ms = mset (messages (n_store n)) \<and>
    sorted_wrt (\<lambda>l r. created_at_ms l < created_at_ms r \<or> created_at_ms l = created_at_ms r \<and>
      (origin l < origin r \<or> origin l = origin r \<and>
        (sequence l < sequence r \<or> sequence l = sequence r \<and> message_id l < message_id r))) ms \<and>
    counted_array (js W) ''messages'' (message_to_json (js W)) ms = Inr t \<and>
    get_messages W C q n = (Inr (), emit (send_json (ev W) (handle q) HTTP_OK ''OK'' t) n) \<and>
    get_messages W C q n' = (Inr (), emit (send_json (ev W) (handle q) HTTP_OK ''OK'' t) n')"
proof -
  let ?ms = "sort_key message_key (messages (n_store n))"
  obtain t where t: "counted_array (js W) ''messages'' (message_to_json (js W)) ?ms = Inr t"
    using json_library.counted_messages_total [OF assms(1)] by blast
  have "distinct (map message_key (messages (n_store n)))"
    using assms(3) by (auto simp: distinct_map inj_on_def message_key_def)
  with assms(2) have "?ms = sort_key message_key (messages (n_store n'))" by (rule sort_key_unique)
  then have "get_messages W C q k = (Inr (), emit (send_json (ev W) (handle q) HTTP_OK ''OK'' t) k)" if "k \<in> {n, n'}" for k
    using that t by (auto simp: get_messages_def service_messages_def stable_sort_key andthen_def lift_result_def respond_def)
  moreover have "mset ?ms = mset (messages (n_store n))" by simp
  moreover have "sorted_wrt (\<lambda>l r. created_at_ms l < created_at_ms r \<or> created_at_ms l = created_at_ms r \<and>
      (origin l < origin r \<or> origin l = origin r \<and>
        (sequence l < sequence r \<or> sequence l = sequence r \<and> message_id l < message_id r))) ?ms"
    using sorted_messages [OF assms(3)] by (rule sorted_wrt_mono_rel [rotated]) (auto simp: message_key_def less_prod_def)
  ultimately show ?thesis using t by blast
qed

definition listing_node :: "nat list \<Rightarrow> refdb Node" where
  "listing_node ks = sample_node\<lparr>n_store := sample_store\<lparr>store_messages := map sample_message ks\<rparr>\<rparr>"

theorem message_order_deterministic_witness:
  "\<exists>t. get_messages sample_env sample_config (sample_request EVHTTP_REQ_GET ''/api/v1/messages'' []) (listing_node [1, 2]) =
      (Inr (), emit (send_json sample_libevent 1 HTTP_OK ''OK'' t) (listing_node [1, 2])) \<and>
    get_messages sample_env sample_config (sample_request EVHTTP_REQ_GET ''/api/v1/messages'' []) (listing_node [2, 1]) =
      (Inr (), emit (send_json sample_libevent 1 HTTP_OK ''OK'' t) (listing_node [2, 1]))"
proof -
  have "mset (messages (n_store (listing_node [1, 2]))) = mset (messages (n_store (listing_node [2, 1])))"
      "distinct (map message_id (messages (n_store (listing_node [1, 2]))))"
    by (simp_all add: listing_node_def messages_def sample_message_def)
  from message_order_deterministic [of sample_env, OF _ this, of sample_config "sample_request EVHTTP_REQ_GET ''/api/v1/messages'' []"]
    sample_jsonc_library
  show ?thesis by (simp add: sample_request_def) blast
qed

section \<open>Requests that only read\<close>

text \<open>The node without its event subscribers and the trace of calls.\<close>

definition core :: "'db Node \<Rightarrow> 'db Node" where
  "core n = n\<lparr>n_calls := [], n_events := []\<rparr>"

lemma core_emit [simp]: "core (emit cs n) = core n"
  by (simp add: core_def emit_def)

lemma core_fields:
  assumes "core n = core n'"
  shows "n_store n = n_store n'" "n_next_sequence n = n_next_sequence n'" "n_peers n = n_peers n'"
    "n_clock n = n_clock n'" "n_pending n = n_pending n'" "n_handles n = n_handles n'"
    "n_datagrams n = n_datagrams n'" "n_announce_failed n = n_announce_failed n'"
  using assms by (auto simp: core_def dest: arg_cong [where f = n_store] arg_cong [where f = n_next_sequence]
      arg_cong [where f = n_peers] arg_cong [where f = n_clock] arg_cong [where f = n_pending]
      arg_cong [where f = n_handles] arg_cong [where f = n_datagrams] arg_cong [where f = n_announce_failed])

definition reading :: "('db Node, 'a) action \<Rightarrow> bool" where
  "reading a \<longleftrightarrow> (\<forall>n. core (snd (a n)) = core n)"

lemma reading_andthen: "reading a \<Longrightarrow> (\<And>v. reading (f v)) \<Longrightarrow> reading (andthen a f)"
  unfolding reading_def andthen_def by (auto split: prod.splits sum.splits) (metis snd_conv)+

lemma reading_basic:
  "reading (ret v)" "reading (lift_result r)" "reading (respond W q st reason t)" "reading (serve_asset W q f ct)"
  "reading (open_event_stream W C q)"
proof -
  show "reading (serve_asset W q f ct)"
    unfolding serve_asset_def by (rule reading_andthen) (auto simp: reading_def)
  show "reading (open_event_stream W C q)"
    by (simp add: reading_def open_event_stream_def subscribe_def) (simp add: core_def emit_def)
qed (simp_all add: reading_def respond_def)

lemma reading_state: "(\<And>n. reading (a n)) \<Longrightarrow> reading (\<lambda>n. a n n)"
  by (simp add: reading_def)

lemma reading_queries: "reading (get_status W C q)" "reading (get_messages W C q)" "reading (get_peers W C q)"
  unfolding get_status_def get_messages_def get_peers_def
  by (rule reading_state, rule reading_andthen, rule reading_basic, rule reading_basic)+

lemma reading_get_routes: "(EVHTTP_REQ_GET, p, h) \<in> set routes \<Longrightarrow> reading (h W C q)"
  by (auto simp: routes_def reading_queries reading_basic serve_index_def serve_stylesheet_def serve_script_def
      get_healthz_def)

lemma reading_loop:
  assumes "command q = EVHTTP_REQ_GET"
    and "\<And>p h. (EVHTTP_REQ_GET, p, h) \<in> set rs \<Longrightarrow> reading (h W C q)"
  shows "reading (route_loop rs path found W C q)"
  using assms(2)
proof (induction rs arbitrary: found)
  case Nil
  then show ?case by (simp add: reading_basic)
next
  case (Cons r rs)
  obtain m p h where r: "r = (m, p, h)" by (metis prod_cases3)
  have "reading (route_loop rs path b W C q)" for b using Cons by (metis list.set_intros(2))
  moreover have "m = EVHTTP_REQ_GET \<Longrightarrow> reading (h W C q)" using Cons.prems r by (metis list.set_intros(1))
  ultimately show ?case using r assms(1) by simp
qed

text \<open>
  C31: a GET request changes neither the database nor the counter, the peers, the clock, the
  pending requests or the datagrams sent, whatever path it asks for and whatever fails.
\<close>

theorem get_requests_only_read:
  assumes "command q = EVHTTP_REQ_GET"
  shows "core (handle_request W C q n) = core n"
proof -
  have "reading (route_loop routes path False W C q)" for path
    using assms by (rule reading_loop) (rule reading_get_routes)
  then have "core (snd (process_request W C q n)) = core n"
    by (simp add: process_request_def reading_def bad_request_def Let_def
        reading_basic(3) [unfolded reading_def, rule_format])
  then show ?thesis
    by (auto simp: handle_request_def split: prod.splits sum.splits exn.splits)
qed

theorem get_requests_only_read_witness:
  "core (handle_request sample_env sample_config (sample_request EVHTTP_REQ_GET ''/api/v1/messages'' []) sample_node) =
   core sample_node"
  by (rule get_requests_only_read) (simp add: sample_request_def)

section \<open>What a client may create\<close>

definition valid_identity :: "NodeIdentity \<Rightarrow> bool" where
  "valid_identity i \<longleftrightarrow>
     node_id i \<noteq> [] \<and> length (node_id i) \<le> 64 \<and> node_callsign i \<noteq> [] \<and> length (node_callsign i) \<le> 64"

context json_library
begin

lemma check_body_text:
  assumes "check_body J v = BodyText t"
  shows "t \<noteq> [] \<and> length t \<le> max_message_bytes \<and> is_valid_utf8 t \<and>
    (\<exists>s. object_get_ex J v ''body'' = Some s \<and> object_is_type J s json_type_string \<and> get_string J s = Some t)"
proof -
  obtain s where s: "object_get_ex J v ''body'' = Some s" "object_is_type J s json_type_string"
    using assms by (auto simp: check_body_def split: option.splits if_splits)
  obtain d where "get_string J s = Some d" "get_string_len J s = int (length d)"
    using string_bytes [OF s(2)] by blast
  then show ?thesis
    using assms s by (auto simp: check_body_def Let_def split: if_splits)
qed

end

lemma local_message_accepted:
  assumes "json_library J" and "check_body J v = BodyText t" and "valid_identity (cfg_identity C)"
    and "1 \<le> unat k" and "unat k < 2 ^ 63" and "is_int64 now"
  shows "accepted_message (local_message C k now t)"
proof -
  have t: "t \<noteq> []" "length t \<le> max_message_bytes" "is_valid_utf8 t"
    using json_library.check_body_text [OF assms(1,2)] by auto
  have "length (to_string (unat k)) \<le> 19"
    using assms(5) by (intro length_to_string) simp_all
  then show ?thesis
    using assms t by (simp add: accepted_message_def local_message_def message_id_of_def valid_identity_def)
qed

text \<open>
  C28: what a client posts survives the way to the peers: the text that passes the checks of
  \<open>create_message\<close> is exactly the string in the request, and the message made from it, encoded by
  \<open>message_to_json\<close>, is decoded by the \<open>parse_message\<close> of a peer to the same message.  The identity is
  assumed to have 1 to 64 bytes without a zero byte in the node id and in the callsign, the counter
  to be in 1..2^63-1 and the time to be a 64-bit integer.  The limit a peer sets to the size of the
  request is not part of this statement.
\<close>

theorem created_message_accepted:
  assumes "json_library J" and "check_body J v = BodyText t" and "valid_identity (cfg_identity C)"
    and "no_nul (node_id (cfg_identity C))" and "no_nul (node_callsign (cfg_identity C))"
    and "1 \<le> unat k" and "unat k < 2 ^ 63" and "is_int64 now"
  shows "json_get_string J v ''body'' = Some t \<and>
    (\<exists>w. message_to_json J (local_message C k now t) = Inr w \<and> parse_message J w = Some (local_message C k now t))"
proof -
  let ?m = "local_message C k now t"
  note a = local_message_accepted [OF assms(1-3,6-8)]
  obtain w where w: "message_to_json J ?m = Inr w"
    using json_library.build_object_ok [OF assms(1), of "message_members J ?m"] by (auto simp: message_to_json_def)
  have "printable_ids ?m"
    using assms(4,5) no_nul_to_string [of "unat k"] by (simp add: printable_ids_def local_message_def message_id_of_def no_nul_def)
  then have "parse_message J w = Some ?m"
    using json_library.parse_message_to_json [OF assms(1) a w] a by (auto simp: printable_ids_def accepted_message_def)
  moreover have "json_get_string J v ''body'' = Some t"
    using json_library.check_body_text [OF assms(1,2)] json_library.string_bytes [OF assms(1)]
    by (fastforce simp: json_get_string_def Let_def)
  ultimately show ?thesis using w by blast
qed

lemma sample_check_body: "check_body sample_jsonc (JObject [(''body'', JString ''hello'')]) = BodyText ''hello''"
  by (simp add: check_body_def sample_jsonc_def json_values_def max_message_bytes_def)

theorem created_message_accepted_witness:
  "\<exists>w. message_to_json sample_jsonc (sample_message 1) = Inr w \<and> parse_message sample_jsonc w = Some (sample_message 1)"
  using created_message_accepted [OF sample_jsonc_library sample_check_body, of sample_config 1 1]
  by (simp add: sample_local_message [unfolded One_nat_def])
     (simp add: valid_identity_def sample_config_def is_int64_def int64_min_def int64_max_def no_nul_def)

section \<open>Synchronization batches\<close>

definition new_count :: "bool result list \<Rightarrow> nat" where
  "new_count rs = length (filter (\<lambda>r. r = Inr True) rs)"

lemma new_count_simps [simp]:
  "new_count [] = 0" "new_count (r # rs) = (if r = Inr True then 1 else 0) + new_count rs"
  by (simp_all add: new_count_def)

lemma ingest_sync_adds:
  assumes J: "json_library (js W)" and "ingest_sync W m n = (r, n')"
  shows "add (sql W) m (n_store n) = (r, n_store n') \<and> n_next_sequence n' = n_next_sequence n \<and>
    n_peers n' = n_peers n \<and> n_clock n' = n_clock n"
proof -
  obtain t where t: "message_text (js W) m = Inr t"
    using json_library.message_text_total [OF J] by blast
  show ?thesis
    using assms(2) by (auto simp: ingest_sync_eq [OF t] split: prod.splits sum.splits if_splits)
qed

lemma sync_loop_adds:
  assumes J: "json_library (js W)"
  shows "sync_loop W q items k n = (r, n') \<Longrightarrow>
    \<exists>ms rs. map Some ms = map (parse_message (js W)) (take (length ms) items) \<and>
      add_all (sql W) ms (n_store n) = (rs, n_store n') \<and> n_next_sequence n' = n_next_sequence n \<and>
      n_peers n' = n_peers n \<and> n_clock n' = n_clock n \<and>
      (\<forall>j. r = Inr (Some j) \<longrightarrow> length ms = length items \<and> j = k + new_count rs \<and> list_all (\<lambda>x. x \<in> range Inr) rs)"
proof (induction items arbitrary: k n)
  case Nil
  then show ?case by (intro exI [of _ "[]"]) auto
next
  case (Cons item items)
  show ?case
  proof (cases "parse_message (js W) item")
    case None
    then have "r = Inr None" "core n' = core n"
      using Cons.prems by (auto simp: andthen_def bad_request_def respond_def)
    then show ?thesis using core_fields [of n' n] by (intro exI [of _ "[]"]) auto
  next
    case (Some m)
    obtain a n1 where i: "ingest_sync W m n = (a, n1)" by fastforce
    note n1 = ingest_sync_adds [OF J i]
    show ?thesis
    proof (cases a)
      case (Inl e)
      then have "r = Inl e" "n' = n1" using Cons.prems Some i by (auto simp: andthen_def)
      then show ?thesis using Some n1 by (intro exI [of _ "[m]"] exI [of _ "[a]"]) auto
    next
      case (Inr b)
      then have "sync_loop W q items (if b then k + 1 else k) n1 = (r, n')"
        using Cons.prems Some i by (simp add: andthen_def)
      from Cons.IH [OF this] obtain ms rs where h: "map Some ms = map (parse_message (js W)) (take (length ms) items)"
          "add_all (sql W) ms (n_store n1) = (rs, n_store n')" "n_next_sequence n' = n_next_sequence n1"
          "n_peers n' = n_peers n1" "n_clock n' = n_clock n1"
          "\<forall>j. r = Inr (Some j) \<longrightarrow> length ms = length items \<and> j = (if b then k + 1 else k) + new_count rs \<and>
            list_all (\<lambda>x. x \<in> range Inr) rs"
        by blast
      show ?thesis
      proof (intro exI [of _ "m # ms"] exI [of _ "a # rs"] conjI)
        show "add_all (sql W) (m # ms) (n_store n) = (a # rs, n_store n')" using h(2) n1 by simp
        show "\<forall>j. r = Inr (Some j) \<longrightarrow> length (m # ms) = length (item # items) \<and> j = k + new_count (a # rs) \<and>
            list_all (\<lambda>x. x \<in> range Inr) (a # rs)"
          using h(6) Inr by (cases b) simp_all
      qed (use h Some n1 in simp_all)
    qed
  qed
qed

text \<open>
  The loop of \<open>sync_messages\<close> is the addition of the parsed items in order.  When it runs to
  its end every item was a valid message and the count it reports is the number of messages
  that were new; when an item is invalid or storing throws, the items before it stay stored.
\<close>

theorem sync_batch_adds_in_order:
  assumes "json_library (js W)" and "sync_loop W q items 0 n = (r, n')"
  shows "\<exists>ms rs. map Some ms = map (parse_message (js W)) (take (length ms) items) \<and>
    list_all accepted_message ms \<and> add_all (sql W) ms (n_store n) = (rs, n_store n') \<and>
    (\<forall>j. r = Inr (Some j) \<longrightarrow> length ms = length items \<and> j = new_count rs)"
proof -
  obtain ms rs where h: "map Some ms = map (parse_message (js W)) (take (length ms) items)"
      "add_all (sql W) ms (n_store n) = (rs, n_store n')"
      "\<forall>j. r = Inr (Some j) \<longrightarrow> length ms = length items \<and> j = new_count rs"
    using sync_loop_adds [OF assms] by auto
  have "accepted_message m" if "m \<in> set ms" for m
  proof -
    have "Some m \<in> set (map Some ms)" using that by simp
    then obtain v where "parse_message (js W) v = Some m" unfolding h(1) by auto
    with assms(1) show ?thesis by (rule parse_message_accepted)
  qed
  then show ?thesis using h by (auto simp: list_all_iff)
qed

theorem sync_batch_adds_in_order_witness:
  "\<exists>v rs. message_to_json sample_jsonc (sample_message 1) = Inr v \<and>
     fst (sync_loop sample_env (sample_request EVHTTP_REQ_POST ''/api/v1/sync/messages'' []) [v] 0 sample_node) =
       Inr (Some (new_count rs)) \<and>
     fst (add_all sample_engine [sample_message 1] sample_store) = rs"
proof -
  obtain v where v: "message_to_json sample_jsonc (sample_message 1) = Inr v"
    using sample_encodes by blast
  have p: "parse_message sample_jsonc v = Some (sample_message 1)"
    using json_library.parse_message_to_json [OF sample_jsonc_library sample_message_accepted(1) v]
      sample_message_accepted by (auto simp: printable_ids_def accepted_message_def)
  let ?q = "sample_request EVHTTP_REQ_POST ''/api/v1/sync/messages'' []"
  obtain r n' where s: "sync_loop sample_env ?q [v] 0 sample_node = (r, n')" by fastforce
  have r: "r = Inr (Some 1)"
    using s p sample_add by (simp add: andthen_def ingest_sync_eq [OF sample_text [folded sample_env_fields(2)]])
  from sync_batch_adds_in_order [OF _ s] obtain ms rs where
    "map Some ms = map (parse_message sample_jsonc) (take (length ms) [v])"
    "add_all sample_engine ms sample_store = (rs, n_store n')" "length ms = 1" "new_count rs = 1"
    using r sample_jsonc_library by auto
  then show ?thesis using v s r p by (cases ms) auto
qed

end
