(* ===== verification/Les_Sync.thy ===== *)
theory Les_Sync
  imports Les_Http_Api
begin

text \<open>
  \<open>sync_service.cpp\<close>: every five seconds a node sends its sequence summary to its active peers;
  to each summary it gets back it answers with a batch of the messages the peer lacks.
\<close>

definition summary_post :: "libevent \<Rightarrow> bytes \<Rightarrow> bytes \<Rightarrow> Peer \<Rightarrow> nat \<Rightarrow>
    evcall list \<times> RequestContext option" where
  "summary_post L local_address payload peer h =
     post_request L local_address SummaryResponse [(''Content-Type'', ''application/json'')]
       ''/api/v1/sync/summary'' payload (address peer) (http_port peer) h"

definition synchronize :: "('db, 'j) Env \<Rightarrow> Config \<Rightarrow> ('db Node, unit) action" where
  "synchronize W C =
     andthen (lift_result (make_json_object (js W))) (\<lambda>root.
     andthen (lift_result (make_json_object (js W))) (\<lambda>origins.
     andthen (on_store (sequence_summary (sql W))) (\<lambda>summary.
     andthen (lift_result (serialize_json (js W) (summary_json (js W) summary root origins))) (\<lambda>payload n.
       case post_all (summary_post (ev W) (cfg_local_address C) payload)
              (active_peers (current_time_ms (n_clock n)) (n_peers n)) (n_handles n) of
         (cs, ctxs, h) \<Rightarrow> (Inr (), emit cs (n\<lparr>n_pending := n_pending n @ ctxs, n_handles := h\<rparr>))))))"

definition sync_timer_callback :: "('db, 'j) Env \<Rightarrow> Config \<Rightarrow> 'db Node \<Rightarrow> 'db Node" where
  "sync_timer_callback W C n = snd (synchronize W C n)"

definition send_batch :: "('db, 'j) Env \<Rightarrow> Config \<Rightarrow> bytes \<Rightarrow> u16 \<Rightarrow> bytes \<Rightarrow> ('db Node, unit) action" where
  "send_batch W C addr port payload = (\<lambda>n.
     case post_request (ev W) (cfg_local_address C) BatchResponse [(''Content-Type'', ''application/json'')]
            ''/api/v1/sync/messages'' payload addr port (n_handles n) of
       (cs, ctx) \<Rightarrow>
         (Inr (), emit cs (n\<lparr>n_handles := Suc (n_handles n),
            n_pending := (case ctx of None \<Rightarrow> n_pending n | Some c \<Rightarrow> n_pending n @ [c])\<rparr>)))"

text \<open>The highest number of its origin that the peer reports to have, 0 if it reports none.\<close>

definition last_known :: "'j jsonc \<Rightarrow> 'j \<Rightarrow> ChatMessage \<Rightarrow> u64" where
  "last_known J origins message =
     (case object_get_ex J origins (c_str (origin message)) of
        None \<Rightarrow> 0
      | Some last_value \<Rightarrow>
          if object_is_type J last_value json_type_int
          then let parsed_last = get_int64 J last_value in
            if parsed_last > 0 then word_of_int parsed_last else 0
          else 0)"

fun missing_loop :: "'j jsonc \<Rightarrow> 'j \<Rightarrow> ChatMessage list \<Rightarrow> nat \<Rightarrow> 'j list result" where
  "missing_loop J origins [] k = Inr []"
| "missing_loop J origins (message # ms) k =
     (if last_known J origins message < sequence message \<and> k < max_sync_batch_messages
      then
        result_bind (message_to_json J message) (\<lambda>item.
        result_bind (missing_loop J origins ms (k + 1)) (\<lambda>items. Inr (item # items)))
      else missing_loop J origins ms k)"

definition batch_json :: "'j jsonc \<Rightarrow> 'j list \<Rightarrow> 'j \<Rightarrow> 'j \<Rightarrow> 'j" where
  "batch_json J items batch msgs =
     add_members J
       [(''protocol'', new_int J protocol_version), (''type'', new_string J ''sync_messages''),
        (''messages'', fold (\<lambda>v a. array_add J a v) items msgs)] batch"

text \<open>The part of \<open>send_missing\<close> after its checks: the loop over the store, and the batch.\<close>

definition offer_missing ::
  "('db, 'j) Env \<Rightarrow> Config \<Rightarrow> RequestContext \<Rightarrow> 'j \<Rightarrow> 'j \<Rightarrow> 'j \<Rightarrow> ('db Node, unit) action" where
  "offer_missing W C context origins batch msgs = (\<lambda>n.
     andthen (lift_result (missing_loop (js W) origins (messages (n_store n)) 0)) (\<lambda>items.
       if items = [] then ret ()
       else
         andthen (lift_result (serialize_json (js W) (batch_json (js W) items batch msgs))) (\<lambda>payload.
           send_batch W C (ctx_address context) (ctx_port context) payload)) n)"

definition send_missing :: "('db, 'j) Env \<Rightarrow> Config \<Rightarrow> RequestContext \<Rightarrow> bytes \<Rightarrow> ('db Node, unit) action" where
  "send_missing W C context summary_text =
     andthen (lift_result (parse_json (js W) summary_text)) (\<lambda>parsed.
       if \<not> parsed_ok parsed \<or> \<not> json_is_object (js W) (parsed_object parsed)
       then throw (RuntimeError ''Invalid sync summary response'')
       else
         (case object_get_ex (js W) (parsed_object parsed) ''origins'' of
            None \<Rightarrow> throw (RuntimeError ''Sync summary has no origins'')
          | Some origins \<Rightarrow>
              if \<not> object_is_type (js W) origins json_type_object
              then throw (RuntimeError ''Sync summary has no origins'')
              else
                andthen (lift_result (make_json_object (js W))) (\<lambda>batch.
                andthen (lift_result (make_json_array (js W))) (\<lambda>msgs.
                  offer_missing W C context origins batch msgs))))"

text \<open>The answer to an outgoing request: none, or a status code with the body as it was read.\<close>

type_synonym response = "(int \<times> HttpRequest) option"

definition handle_summary_response ::
  "('db, 'j) Env \<Rightarrow> Config \<Rightarrow> HttpRequest \<Rightarrow> RequestContext \<Rightarrow> ('db Node, unit) action" where
  "handle_summary_response W C q context =
     andthen (lift_result (read_request_body q max_sync_request_bytes)) (send_missing W C context)"

definition summary_response_callback ::
  "('db, 'j) Env \<Rightarrow> Config \<Rightarrow> response \<Rightarrow> RequestContext \<Rightarrow> 'db Node \<Rightarrow> 'db Node" where
  "summary_response_callback W C resp state n =
     (let n' = (case resp of
          None \<Rightarrow> n
        | Some (code, q) \<Rightarrow> if code \<noteq> HTTP_OK then n else snd (handle_summary_response W C q state n)) in
      emit [ConnectionFree (ctx_connection state)] n')"

definition send_response_callback :: "RequestContext \<Rightarrow> 'db Node \<Rightarrow> 'db Node" where
  "send_response_callback state n = emit [ConnectionFree (ctx_connection state)] n"

section \<open>The messages of a batch\<close>

definition missing :: "'j jsonc \<Rightarrow> 'j \<Rightarrow> ChatMessage list \<Rightarrow> ChatMessage list" where
  "missing J origins ms = take max_sync_batch_messages (filter (\<lambda>m. last_known J origins m < sequence m) ms)"

lemma missing_loop_full: "max_sync_batch_messages \<le> k \<Longrightarrow> missing_loop J origins ms k = Inr []"
  by (induction ms) simp_all

lemma missing_loop_eq:
  "missing_loop J origins ms k =
     map_result (message_to_json J)
       (take (max_sync_batch_messages - k) (filter (\<lambda>m. last_known J origins m < sequence m) ms))"
proof (induction ms arbitrary: k)
  case Nil
  then show ?case by simp
next
  case (Cons m ms)
  show ?case
  proof (cases "k < max_sync_batch_messages")
    case True
    then have "max_sync_batch_messages - k = Suc (max_sync_batch_messages - (k + 1))" by simp
    then show ?thesis using Cons True by simp
  next
    case False
    then show ?thesis using missing_loop_full [of k] by simp
  qed
qed

lemma map_result_Inr:
  "map_result f xs = Inr ys \<Longrightarrow> length ys = length xs \<and> (\<forall>i < length xs. f (xs ! i) = Inr (ys ! i))"
proof (induction xs arbitrary: ys)
  case Nil
  then show ?case by simp
next
  case (Cons x xs)
  then obtain y zs where "f x = Inr y" "map_result f xs = Inr zs" "ys = y # zs"
    by (auto simp: result_bind_def split: sum.splits)
  then show ?case using Cons.IH [of zs] by (auto simp: nth_Cons split: nat.splits)
qed

lemma map_of_rev_distinct:
  assumes "distinct (map fst xs)"
  shows "map_of (rev xs) = map_of xs"
  using assms by (intro map_of_inject_set [THEN iffD2]) (auto simp flip: rev_map)

context json_library
begin

lemma message_to_json_total: "\<exists>v. message_to_json J m = Inr v"
  using build_object_ok [of "message_members J m"] by (auto simp: message_to_json_def)

lemma map_messages_total: "\<exists>vs. map_result (message_to_json J) ms = Inr vs"
proof (induction ms)
  case Nil
  then show ?case by simp
next
  case (Cons m ms)
  then show ?case using message_to_json_total [of m] by auto
qed

lemma origins_json_get:
  assumes "object_is_type J o0 json_type_object" and "\<forall>k. object_get_ex J o0 k = None"
    and "distinct (map fst r)" and "list_all (\<lambda>(k, n). no_nul k) r" and "no_nul k"
  shows "object_get_ex J (origins_json J r o0) k = map_option (\<lambda>n. new_int64 J (sint n)) (map_of r k)"
proof -
  have e: "map (\<lambda>(orig, n). (c_str orig, new_int64 J (sint n))) r = map (\<lambda>(orig, n). (orig, new_int64 J (sint n))) r"
    using assms(4) by (auto simp: list_all_iff)
  have d: "distinct (map fst (map (\<lambda>(orig, n). (orig, new_int64 J (sint n))) r))"
    using assms(3) by (simp add: split_def comp_def)
  show ?thesis
    using assms(2) get_add_members [OF assms(1)] map_of_rev_distinct [OF d]
    by (simp add: origins_json_def e map_of_map split: option.splits)
qed

lemma origins_json_is_object:
  "object_is_type J o0 json_type_object \<Longrightarrow> object_is_type J (origins_json J r o0) json_type_object"
  by (simp add: origins_json_def add_members_is_object)

text \<open>Read back by the other side, a summary gives the bound of the origin.\<close>

lemma last_known_summary:
  assumes "object_is_type J o0 json_type_object" and "\<forall>k. object_get_ex J o0 k = None"
    and "distinct (map fst r)" and "list_all (\<lambda>(k, n). no_nul k \<and> 1 \<le> sint n) r"
  shows "last_known J (origins_json J r o0) m = (case map_of r (c_str (origin m)) of None \<Rightarrow> 0 | Some n \<Rightarrow> n)"
proof -
  have "object_get_ex J (origins_json J r o0) (c_str (origin m)) =
      map_option (\<lambda>n. new_int64 J (sint n)) (map_of r (c_str (origin m)))"
    using assms(4) by (intro origins_json_get [OF assms(1-3)]) (auto simp: list_all_iff)
  moreover have "1 \<le> sint n \<and> is_int64 (sint n)" if "map_of r (c_str (origin m)) = Some n" for n :: u64
    using assms(4) map_of_SomeD [OF that] sint_lt [of n]
    by (auto simp: list_all_iff is_int64_def int64_min_def int64_max_def)
  ultimately show ?thesis
    using new_int64_ok by (auto simp: last_known_def Let_def split: option.splits)
qed

end

section \<open>A batch at the receiver\<close>

definition relayable :: "ChatMessage \<Rightarrow> bool" where
  "relayable m \<longleftrightarrow> accepted_message m \<and> printable_ids m"

context json_library
begin

lemma parse_relayable:
  assumes "relayable m" and "message_to_json J m = Inr v"
  shows "parse_message J v = Some m"
  using parse_message_to_json [OF _ assms(2)] assms(1)
  by (auto simp: relayable_def printable_ids_def accepted_message_def)

lemma parse_items:
  assumes "list_all relayable ms" and "map_result (message_to_json J) ms = Inr items"
  shows "map (parse_message J) items = map Some ms"
proof (rule nth_equalityI)
  show "length (map (parse_message J) items) = length (map Some ms)"
    using map_result_Inr [OF assms(2)] by simp
  fix i
  assume "i < length (map (parse_message J) items)"
  then have i: "i < length ms" and v: "message_to_json J (ms ! i) = Inr (items ! i)" and "i < length items"
    using map_result_Inr [OF assms(2)] by auto
  have "relayable (ms ! i)" using assms(1) i by (simp add: list_all_length)
  with v i show "map (parse_message J) items ! i = map Some ms ! i"
    using parse_relayable \<open>i < length items\<close> by simp
qed

lemma batch_json_reads:
  assumes b: "make_json_object J = Inr b" and a: "make_json_array J = Inr a"
  shows "json_is_object J (batch_json J items b a) \<and> sync_header J ''sync_messages'' (batch_json J items b a) \<and>
    (\<exists>arr. object_get_ex J (batch_json J items b a) ''messages'' = Some arr \<and>
      object_is_type J arr json_type_array \<and> array_items J arr = items \<and> array_length J arr = length items)"
proof -
  have b': "object_is_type J b json_type_object" "\<forall>k. object_get_ex J b k = None"
    using b new_object_ok by (auto simp: make_json_object_def split: option.splits)
  have a': "object_is_type J a json_type_array" "array_length J a = 0"
    using a new_array_ok by (auto simp: make_json_array_def split: option.splits)
  let ?arr = "fold (\<lambda>v a. array_add J a v) items a"
  have arr: "object_is_type J ?arr json_type_array" "array_length J ?arr = length items"
      "\<forall>i < length items. array_get_idx J ?arr i = items ! i"
    using array_fold [OF a'(1), of items] a'(2) by auto
  then have it: "array_items J ?arr = items"
    by (auto simp: array_items_def intro: nth_equalityI)
  have obj: "object_is_type J (batch_json J items b a) json_type_object"
    using add_members_is_object [OF b'(1)] by (simp add: batch_json_def)
  have get: "object_get_ex J (batch_json J items b a) k =
      map_of [(''messages'', ?arr), (''type'', new_string J ''sync_messages''), (''protocol'', new_int J protocol_version)] k" for k
    using get_add_members [OF b'(1)] b'(2) by (simp add: batch_json_def)
  show ?thesis
    using obj object_not_null [OF obj] get arr it new_int_ok [of protocol_version] new_string_ok [of "''sync_messages''"]
    by (simp add: json_is_object_def sync_header_def protocol_version_def int32_range_def)
qed

end

lemma read_json_object_ok:
  assumes "has_json_content_type q" and "copied q = int (length (input q))" and "length (input q) \<le> limit"
    and "parse_json (js W) (input q) = Inr \<lparr>parsed_object = v, parsed_ok = True, parse_end = length (input q)\<rparr>"
    and "json_is_object (js W) v"
  shows "read_json_object W q limit complete err = ret (Some v)"
  using assms by (simp add: read_json_object_def read_request_body_def andthen_def fun_eq_iff Let_def)

lemma sync_messages_runs:
  assumes J: "json_library (js W)"
    and q: "has_json_content_type q" "copied q = int (length (input q))" "length (input q) \<le> max_sync_request_bytes"
    and b: "make_json_object (js W) = Inr b" and a: "make_json_array (js W) = Inr a"
    and v: "v = batch_json (js W) items b a" and t: "serialize_json (js W) v = Inr (input q)"
    and rb: "reads_back (js W) v" and len: "length items \<le> max_sync_batch_messages"
  shows "sync_messages W C q = andthen (sync_loop W q items 0) (\<lambda>accepted.
    case accepted of None \<Rightarrow> ret () | Some k \<Rightarrow> respond W q HTTP_OK ''OK'' (accepted_body k))"
proof -
  note r = json_library.batch_json_reads [OF J b a, of items, folded v]
  obtain arr where arr: "object_get_ex (js W) v ''messages'' = Some arr" "object_is_type (js W) arr json_type_array"
      "array_items (js W) arr = items" "array_length (js W) arr = length items"
    using r by blast
  have p: "parse_json (js W) (input q) = Inr \<lparr>parsed_object = v, parsed_ok = True, parse_end = length (input q)\<rparr>"
    using rb t by (auto simp: reads_back_def)
  have ob: "json_is_object (js W) v" and h: "sync_header (js W) ''sync_messages'' v" using r by auto
  show ?thesis
    unfolding sync_messages_def read_json_object_ok [OF q p ob]
    using arr h len by (simp add: andthen_def fun_eq_iff)
qed

lemma sync_loop_no_error:
  "map (parse_message (js W)) items = map Some ms \<Longrightarrow> sync_loop W q items k n = (r, n') \<Longrightarrow> r \<noteq> Inr None"
proof (induction items arbitrary: ms k n)
  case Nil
  then show ?case by auto
next
  case (Cons item items)
  then obtain m ms2 where m: "parse_message (js W) item = Some m" "map (parse_message (js W)) items = map Some ms2"
    by (cases ms) auto
  obtain r1 n1 where i: "ingest_sync W m n = (r1, n1)" by fastforce
  show ?case
    using Cons.prems(2) Cons.IH [OF m(2)] m(1) i by (cases r1) (auto simp: andthen_def)
qed

text \<open>
  The loop over a batch of messages: it adds a prefix of them, and all of them, each without an
  exception, when it gets to its end.
\<close>

lemma sync_loop_batch:
  assumes J: "json_library (js W)" and items: "map (parse_message (js W)) items = map Some ms"
    and l: "sync_loop W q items 0 n = (r, n')"
  obtains k rs where "k \<le> length ms" and "add_all (sql W) (take k ms) (n_store n) = (rs, n_store n')"
    and "(\<exists>e. r = Inl e) \<or>
      r = Inr (Some (new_count rs)) \<and> k = length ms \<and> list_all (\<lambda>x. x \<in> range Inr) rs"
proof -
  have len: "length items = length ms" using arg_cong [OF items, of length] by simp
  obtain ms' rs where h: "map Some ms' = map (parse_message (js W)) (take (length ms') items)"
      "add_all (sql W) ms' (n_store n) = (rs, n_store n')"
      "\<forall>j. r = Inr (Some j) \<longrightarrow> length ms' = length items \<and> j = 0 + new_count rs \<and> list_all (\<lambda>x. x \<in> range Inr) rs"
    using sync_loop_adds [OF J l] by blast
  have "map Some ms' = map Some (take (length ms') ms)"
    using h(1) items by (metis take_map)
  then have ms': "ms' = take (length ms') ms" by (simp add: inj_map_eq_map)
  then have k: "length ms' \<le> length ms" by (metis length_take min.cobounded1 min_def)
  have "r \<noteq> Inr None" using items l by (rule sync_loop_no_error)
  then have "(\<exists>e. r = Inl e) \<or> (\<exists>j. r = Inr (Some j))" by (cases r) auto
  then show thesis using that [OF k] ms' h(2,3) len by auto
qed

text \<open>An exchange for the examples: node-a has one message, the receiver none.\<close>

definition sample_item :: json where
  "sample_item = add_members sample_jsonc (message_members sample_jsonc (sample_message 1)) (JObject [])"

definition sample_batch :: json where
  "sample_batch = batch_json sample_jsonc [sample_item] (JObject []) (JArray [])"

definition empty_summary :: json where
  "empty_summary = summary_json sample_jsonc [] (JObject []) (JObject [])"

definition batch_request :: HttpRequest where
  "batch_request = sample_request EVHTTP_REQ_POST ''/api/v1/sync/messages'' (json_print sample_batch)"

definition summary_request :: HttpRequest where
  "summary_request = sample_request EVHTTP_REQ_POST ''/api/v1/sync/summary'' (json_print empty_summary)"

lemma sync_request_fields [simp]:
  "input batch_request = json_print sample_batch" "copied batch_request = int (length (json_print sample_batch))"
  "content_type batch_request = Some ''application/json''"
  "input summary_request = json_print empty_summary" "copied summary_request = int (length (json_print empty_summary))"
  "content_type summary_request = Some ''application/json''"
  by (simp_all add: batch_request_def summary_request_def sample_request_def)

lemma sample_new: "make_json_object sample_jsonc = Inr (JObject [])" "make_json_array sample_jsonc = Inr (JArray [])"
  by (simp_all add: make_json_object_def make_json_array_def sample_jsonc_def json_values_def)

lemma sample_item_json: "message_to_json sample_jsonc (sample_message 1) = Inr sample_item"
  by (simp add: message_to_json_def build_object_def sample_new sample_item_def)

text \<open>The texts that are sent: JSON in the plain style.\<close>

lemma summary_text: \<open>json_print empty_summary = ''{"protocol":1,"type":"sync_summary","origins":{}}''\<close>
  by (simp add: empty_summary_def summary_json_def origins_json_def add_members_def sample_jsonc_def json_values_def
      protocol_version_def print_int_def to_string_1 print_string_def escape_char_def)

lemma item_text:
  \<open>json_print sample_item =
     ''{"sequence":1,"id":"node-a:1","callsign":"Bolt","channel":"les-manet","created_at_ms":1,'' @
     ''"body":"hello","origin":"node-a"}''\<close>
  by (simp add: sample_item_def message_members_def add_members_def sample_jsonc_def json_values_def sample_message_def
      print_int_def to_string_1 print_string_def escape_char_def c_str_def)

lemma batch_text:
  \<open>json_print sample_batch = ''{"protocol":1,"type":"sync_messages","messages":['' @ json_print sample_item @ '']}''\<close>
  by (simp add: sample_batch_def batch_json_def add_members_def sample_jsonc_def json_values_def
      protocol_version_def print_int_def to_string_1 print_string_def escape_char_def)

lemma sample_wf: "wf_json sample_item" "wf_json sample_batch" "wf_json empty_summary"
  by (simp_all add: sample_batch_def sample_item_def empty_summary_def batch_json_def summary_json_def
      origins_json_def message_members_def add_members_def sample_jsonc_def json_values_def sample_message_def
      protocol_version_def is_int64_def int64_min_def int64_max_def)

lemma text_lengths:
  "length (json_print empty_summary) \<le> max_request_bytes" "length (json_print empty_summary) \<le> max_sync_request_bytes"
  "length (json_print sample_batch) \<le> max_sync_request_bytes" "length (json_print sample_item) \<le> max_request_bytes"
  by (simp_all add: summary_text batch_text item_text max_request_bytes_def max_sync_request_bytes_def)

lemmas sample_json = sample_jsonc_library sample_serialize sample_new sample_item_json
  sample_reads_back [OF sample_wf(1)] sample_reads_back [OF sample_wf(2)] sample_reads_back [OF sample_wf(3)]

lemma sample_relayable: "relayable (sample_message 1)"
  using sample_message_accepted by (simp add: relayable_def)

section \<open>Convergence\<close>

lemma summary_bounds:
  assumes "json_library J" and "sqlite_engine E view" and "store_weak view s"
    and "sequence_summary E s = (Inr r, s')" and "make_json_object J = Inr o0" and "list_all (\<lambda>(k, n). no_nul k) r"
  shows "last_known J (origins_json J r o0) m = (case map_of r (c_str (origin m)) of None \<Rightarrow> 0 | Some n \<Rightarrow> n)"
proof -
  let ?t = "tables_of view s"
  have v: "view (store_db s) = (?t, None)" "tables_ok ?t"
    using assms(3) by (auto simp: store_weak_def tables_of_def prod_eq_iff)
  have r: "distinct (map fst r)" "map_of r k = map_option word_of_int (map_of (t_sequences ?t) k)" for k
    using sqlite_engine.summary_value [OF assms(2,4) v] by auto
  have "no_nul k \<and> 1 \<le> sint n" if "(k, n) \<in> set r" for k n
  proof -
    have "map_of r k = Some n" using r(1) that by simp
    then obtain l where l: "map_of (t_sequences ?t) k = Some l" "n = word_of_int l" using r(2) by auto
    have b: "1 \<le> l" "l \<le> int64_max"
      using v(2) map_of_SomeD [OF l(1)] by (auto simp: tables_ok_def list_all_iff)
    have i: "is_int64 l" using b by (simp add: is_int64_def int64_min_def)
    have "unat n < 2 ^ 63" "1 \<le> unat n"
      using u64_of_int64 [OF b(1) i] l(2) b(1) by simp_all
    then show ?thesis using assms(6) that sint_positive by (auto simp: list_all_iff)
  qed
  moreover have "object_is_type J o0 json_type_object" "\<forall>k. object_get_ex J o0 k = None"
    using assms(5) json_library.new_object_ok [OF assms(1)] by (auto simp: make_json_object_def split: option.splits)
  ultimately show ?thesis
    using r(1) by (intro json_library.last_known_summary [OF assms(1)]) (auto simp: list_all_iff)
qed

lemma summary_origins:
  assumes "sqlite_engine E view" and "store_weak view s" and "sequence_summary E s = (Inr r, s')"
  shows "fst ` set r = fst ` set (t_sequences (tables_of view s))"
proof -
  have v: "view (store_db s) = (tables_of view s, None)" "tables_ok (tables_of view s)"
    using assms(2) by (auto simp: store_weak_def tables_of_def prod_eq_iff)
  have "dom (map_of r) = dom (map_of (t_sequences (tables_of view s)))"
    using sqlite_engine.summary_value [OF assms(1,3) v] by (simp add: dom_def)
  then show ?thesis by (simp add: dom_map_of_conv_image_fst)
qed

lemma covered_not_missing:
  assumes "json_library J" and "sqlite_engine E view" and "store_weak view s"
    and "sequence_summary E s = (Inr r, s')" and "make_json_object J = Inr o0" and "list_all (\<lambda>(k, n). no_nul k) r"
    and "covered (tables_of view s) x" and "origin x = origin m" and "no_nul (origin m)"
    and "sequence m \<le> sequence x"
  shows "m \<notin> set (missing J (origins_json J r o0) ms)"
proof -
  have v: "view (store_db s) = (tables_of view s, None)" "tables_ok (tables_of view s)"
    using assms(3) by (auto simp: store_weak_def tables_of_def prod_eq_iff)
  obtain l where l: "map_of (t_sequences (tables_of view s)) (origin x) = Some l" "sint (sequence x) \<le> l"
      "1 \<le> sint (sequence x)"
    using assms(7) by (rule coveredE)
  have "l \<le> int64_max" using v(2) map_of_SomeD [OF l(1)] by (auto simp: tables_ok_def list_all_iff)
  then have "sequence x \<le> word_of_int l" using l by (intro word_le_of_sint)
  moreover have "map_of r (origin m) = Some (word_of_int l)"
    using sqlite_engine.summary_value [OF assms(2,4) v, of "origin m"] l(1) assms(8) by simp
  ultimately have "sequence m \<le> last_known J (origins_json J r o0) m"
    using summary_bounds [OF assms(1-6), of m] assms(9,10) by simp
  then show ?thesis by (auto simp: missing_def dest!: in_set_takeD)
qed

lemma weak_stored_covered: "store_weak view s \<Longrightarrow> x \<in> set (t_messages (tables_of view s)) \<Longrightarrow> covered (tables_of view s) x"
  using stored_covered by (auto simp: store_weak_def)

lemma relayable_facts: "relayable m \<Longrightarrow> no_nul (origin m) \<and> storable m \<and> 1 \<le> unat (sequence m)"
  by (auto simp: relayable_def printable_ids_def accepted_message_def storable_def)

lemma sample_empty_summary: "sequence_summary sample_engine sample_store = (Inr [], sample_store)"
  by (simp add: sequence_summary_def statement_simps sample_engine_def sample_store_def empty_refdb_def empty_tables_def)

lemma sample_missing: "missing sample_jsonc (origins_json sample_jsonc [] (JObject [])) [sample_message 1] = [sample_message 1]"
  by (simp add: missing_def last_known_def origins_json_def add_members_def sample_jsonc_def json_values_def
      sample_message_def max_sync_batch_messages_def)


definition gap_store :: "refdb MessageStore" where
  "gap_store = \<lparr>store_db = (empty_refdb 5)\<lparr>cur := insert_tables (sample_message 2) empty_tables, last_changes := 1\<rparr>,
     store_messages = [sample_message 2]\<rparr>"

lemma gap_store_weak: "store_weak ref_view gap_store"
proof -
  have st: "storable (sample_message 2)" by (simp add: storable_def sample_message_def)
  have "add sample_engine (sample_message 2) sample_store = (Inr True, gap_store)"
    unfolding sample_engine_def sample_store_def gap_store_def
    by (subst ref_add_fresh) (simp_all add: empty_refdb_def empty_tables_def fresh_def sample_message_def)
  from sqlite_engine.add_coherent [OF sample_engine_ok sample_store_inv st this] show ?thesis
    by (rule store_inv_weak)
qed

lemma gap_summary: "sequence_summary sample_engine gap_store = (Inr [(''node-a'', 2)], gap_store)"
  by (simp add: sequence_summary_def statement_simps sample_engine_def gap_store_def insert_tables_def
      empty_tables_def fresh_def insert_row_def upsert_row_def sample_message_def column_int64_def column_def
      column_text_def emplace_def empty_refdb_def)


end
