(* ===== verification/Les_Discovery.thy ===== *)
theory Les_Discovery
  imports Les_Service
begin

text \<open>
  \<open>discovery_service.cpp\<close>: UDP announcements, the peers learnt from them, and the clock that a
  client takes from a time authority.  What \<open>recvfrom\<close> and \<open>inet_ntop\<close> return is the input
  of the receive loop; what the sending calls return is in \<open>sockets\<close>.
\<close>

section \<open>Time\<close>

definition synchronize_time :: "(timespec \<Rightarrow> bool) \<Rightarrow> int \<Rightarrow> Clock \<Rightarrow> Clock" where
  "synchronize_time clock_settime authority_time_ms c =
     (if authority_time_ms \<le> 0 then c
      else
        let measured_offset = authority_time_ms - system_time_ms c;
            current_offset = current_time_offset_ms c;
            offset_delta = measured_offset - current_offset in
        if offset_delta > - 250 \<and> offset_delta < 250 then c
        else
          (case set_system_time_ms clock_settime authority_time_ms c of
             (True, c') \<Rightarrow> c'
           | (False, c') \<Rightarrow> set_time_offset_ms measured_offset c'))"

section \<open>Receiving\<close>

record Announcement =
  an_node_id :: bytes
  an_callsign :: bytes
  an_app_version :: bytes
  an_port :: int
  an_is_authority :: bool
  an_time_ms :: int

text \<open>The member \<open>time_authority\<close>: ignored unless a boolean, rejected when it lacks its time.\<close>

definition read_authority :: "'j jsonc \<Rightarrow> 'j \<Rightarrow> (bool \<times> int) option" where
  "read_authority J object =
     (case object_get_ex J object ''time_authority'' of
        None \<Rightarrow> Some (False, 0)
      | Some authority \<Rightarrow>
          if \<not> object_is_type J authority json_type_boolean then Some (False, 0)
          else if \<not> get_boolean J authority then Some (False, 0)
          else
            (case object_get_ex J object ''time_ms'' of
               None \<Rightarrow> None
             | Some authority_time \<Rightarrow>
                 if \<not> object_is_type J authority_time json_type_int then None
                 else Some (True, get_int64 J authority_time)))"

definition read_announcement :: "'j jsonc \<Rightarrow> bytes \<Rightarrow> 'j \<Rightarrow> Announcement option" where
  "read_announcement J self object =
     (case object_get_ex J object ''protocol'' of None \<Rightarrow> None | Some protocol \<Rightarrow>
      if \<not> object_is_type J protocol json_type_int \<or> get_int J protocol \<noteq> protocol_version then None
      else case json_get_string J object ''type'' of None \<Rightarrow> None | Some type' \<Rightarrow>
      if type' \<noteq> ''announce'' then None
      else case json_get_string J object ''node_id'' of None \<Rightarrow> None | Some node \<Rightarrow>
      if node = [] then None
      else case json_get_string J object ''callsign'' of None \<Rightarrow> None | Some call \<Rightarrow>
      case json_get_string J object ''app_version'' of None \<Rightarrow> None | Some version \<Rightarrow>
      case object_get_ex J object ''http_port'' of None \<Rightarrow> None | Some port \<Rightarrow>
      if \<not> object_is_type J port json_type_int then None
      else
        let port_value = get_int64 J port in
        if port_value < 1 \<or> port_value > 65535 \<or> node = self then None
        else
          (case read_authority J object of
             None \<Rightarrow> None
           | Some (is_authority, time) \<Rightarrow>
               Some \<lparr>an_node_id = node, an_callsign = call, an_app_version = version, an_port = port_value,
                 an_is_authority = is_authority, an_time_ms = time\<rparr>))"

definition apply_announcement ::
  "('db, 'j) Env \<Rightarrow> Config \<Rightarrow> Announcement \<Rightarrow> bytes option \<Rightarrow> 'db Node \<Rightarrow> 'db Node" where
  "apply_announcement W C a sender n =
     (let clock = (if cfg_time_sync_mode C = Client \<and> an_is_authority a \<and>
            (cfg_time_authority_id C = [] \<or> cfg_time_authority_id C = an_node_id a)
          then synchronize_time (settime W) (an_time_ms a) (n_clock n) else n_clock n);
          n1 = n\<lparr>n_clock := clock\<rparr> in
      case sender of
        None \<Rightarrow> n1
      | Some address_text \<Rightarrow>
          n1\<lparr>n_peers := update
            \<lparr>peer_node_id = an_node_id a, peer_callsign = an_callsign a, address = c_str address_text,
             http_port = word_of_int (an_port a), peer_app_version = an_app_version a,
             last_seen_ms = current_time_ms clock\<rparr> (n_peers n1)\<rparr>)"

text \<open>
  What \<open>recvfrom\<close> returned: a datagram with the sender's address as \<open>inet_ntop\<close> prints it (or
  not), nothing left to read, or an error.
\<close>

datatype recv = Received bytes "bytes option" | WouldBlock | RecvError bytes

definition receive_one :: "('db, 'j) Env \<Rightarrow> Config \<Rightarrow> bytes \<Rightarrow> bytes option \<Rightarrow> ('db Node, unit) action" where
  "receive_one W C datagram sender =
     (let received = take (max_datagram_bytes + 1) datagram in
      if length received > max_datagram_bytes then ret ()
      else
        andthen (lift_result (parse_json (js W) received)) (\<lambda>parsed.
          if \<not> parsed_ok parsed \<or> parse_end parsed \<noteq> length received \<or>
             \<not> json_is_object (js W) (parsed_object parsed)
          then ret ()
          else
            (case read_announcement (js W) (node_id (cfg_identity C)) (parsed_object parsed) of
               None \<Rightarrow> ret ()
             | Some a \<Rightarrow> (\<lambda>n. (Inr (), apply_announcement W C a sender n)))))"

fun receive_announcements :: "('db, 'j) Env \<Rightarrow> Config \<Rightarrow> recv list \<Rightarrow> ('db Node, unit) action" where
  "receive_announcements W C [] = ret ()"
| "receive_announcements W C (WouldBlock # rs) = ret ()"
| "receive_announcements W C (RecvError e # rs) = throw (RuntimeError (''recvfrom failed: '' @ e))"
| "receive_announcements W C (Received datagram sender # rs) =
     andthen (receive_one W C datagram sender) (\<lambda>_. receive_announcements W C rs)"

definition receive_callback :: "('db, 'j) Env \<Rightarrow> Config \<Rightarrow> recv list \<Rightarrow> 'db Node \<Rightarrow> 'db Node" where
  "receive_callback W C rs n = snd (receive_announcements W C rs n)"

section \<open>Announcing\<close>

definition announce_members :: "'j jsonc \<Rightarrow> Config \<Rightarrow> int \<Rightarrow> (bytes \<times> 'j) list" where
  "announce_members J C now =
     [(''protocol'', new_int J protocol_version),
      (''type'', new_string J ''announce''),
      (''node_id'', new_string J (c_str (node_id (cfg_identity C)))),
      (''callsign'', new_string J (c_str (node_callsign (cfg_identity C)))),
      (''http_port'', new_int J (int (unat (cfg_port C)))),
      (''app_version'', new_string J app_version)] @
     (if cfg_time_sync_mode C = Authority
      then [(''time_authority'', new_boolean J True), (''time_ms'', new_int64 J now)] else [])"

definition udp_send :: "('db, 'j) Env \<Rightarrow> Config \<Rightarrow> nat \<Rightarrow> bytes \<Rightarrow> ('db Node, int) action" where
  "udp_send W C interface payload = (\<lambda>n.
     (Inr (send_result (os W) (length (n_datagrams n))),
      n\<lparr>n_datagrams := n_datagrams n @
        [\<lparr>dg_address = c_str (cfg_discovery_address C), dg_port = cfg_discovery_port C, dg_interface = interface,
          dg_payload = payload\<rparr>]\<rparr>))"

definition choose_interface :: "sockets \<Rightarrow> bytes \<Rightarrow> nat result" where
  "choose_interface S name =
     (if name = [] then Inr 0
      else
        let interface_index = if_nametoindex S (c_str name) in
        if interface_index = 0 then Inl (RuntimeError (''Discovery interface is unavailable: '' @ name))
        else if interface_index > 2147483647 then Inl (RuntimeError ''Discovery interface index is out of range'')
        else if \<not> cmsg_firsthdr_ok S then Inl (RuntimeError ''Failed to configure discovery interface'')
        else Inr interface_index)"

definition send_announce :: "('db, 'j) Env \<Rightarrow> Config \<Rightarrow> ('db Node, unit) action" where
  "send_announce W C = (\<lambda>n.
     andthen (lift_result (build_object (js W) (announce_members (js W) C (current_time_ms (n_clock n))))) (\<lambda>root.
     andthen (lift_result (serialize_json (js W) root)) (\<lambda>payload.
       if \<not> inet_pton_ok (os W) (c_str (cfg_discovery_address C))
       then throw (RuntimeError ''Invalid discovery IPv4 address'')
       else
         andthen (lift_result (choose_interface (os W) (cfg_discovery_interface C))) (\<lambda>interface.
         andthen (udp_send W C interface payload) (\<lambda>sent.
           if sent < 0 then throw (RuntimeError (''Discovery datagram send failed: '' @ strerror (os W)))
           else if nat sent \<noteq> length payload
             then throw (RuntimeError ''Discovery datagram was not sent completely'')
           else ret ())))) n)"

definition announce :: "('db, 'j) Env \<Rightarrow> Config \<Rightarrow> 'db Node \<Rightarrow> 'db Node" where
  "announce W C n =
     (case send_announce W C n of
        (Inr _, n') \<Rightarrow> n'\<lparr>n_announce_failed := False\<rparr>
      | (Inl _, n') \<Rightarrow> n'\<lparr>n_announce_failed := True\<rparr>)"

definition announce_callback :: "('db, 'j) Env \<Rightarrow> Config \<Rightarrow> 'db Node \<Rightarrow> 'db Node" where
  "announce_callback W C n = announce W C n"

section \<open>Opening and closing\<close>

record discovery_setup =
  ds_socket :: int
  ds_reuseaddr :: int
  ds_broadcast :: int
  ds_nonblocking :: int
  ds_bind :: int
  ds_receive_event :: bool
  ds_announce_event :: bool
  ds_add_receive :: int
  ds_add_announce :: int

record resources =
  res_socket :: int
  res_receive :: bool
  res_announce :: bool

datatype release = FreeAnnounceEvent | FreeReceiveEvent | CloseSocket int

definition no_resources :: resources where
  "no_resources = \<lparr>res_socket = - 1, res_receive = False, res_announce = False\<rparr>"

definition close_resources :: "resources \<Rightarrow> release list \<times> resources" where
  "close_resources s =
     ((if res_announce s then [FreeAnnounceEvent] else []) @
      (if res_receive s then [FreeReceiveEvent] else []) @
      (if res_socket s \<ge> 0 then [CloseSocket (res_socket s)] else []),
      \<lparr>res_socket = (if res_socket s \<ge> 0 then - 1 else res_socket s), res_receive = False, res_announce = False\<rparr>)"

text \<open>The body of the constructor up to the first announcement: the exception, and what it holds then.\<close>

definition acquire :: "('db, 'j) Env \<Rightarrow> Config \<Rightarrow> discovery_setup \<Rightarrow> exn option \<times> resources" where
  "acquire W C d =
     (if ds_socket d < 0 then (Some (RuntimeError ''Failed to create discovery socket''), no_resources\<lparr>res_socket := ds_socket d\<rparr>)
      else
        let s1 = no_resources\<lparr>res_socket := ds_socket d\<rparr> in
        if ds_reuseaddr d \<noteq> 0 \<or> ds_broadcast d \<noteq> 0 \<or> ds_nonblocking d \<noteq> 0
        then (Some (RuntimeError ''Failed to configure discovery socket''), s1)
        else if ds_bind d \<noteq> 0
        then (Some (RuntimeError (''Failed to bind discovery UDP port '' @ to_string (unat (cfg_discovery_port C)))), s1)
        else if \<not> inet_pton_ok (os W) (c_str (cfg_discovery_address C))
        then (Some (RuntimeError (''Invalid discovery IPv4 address: '' @ cfg_discovery_address C)), s1)
        else
          let s2 = s1\<lparr>res_receive := ds_receive_event d, res_announce := ds_announce_event d\<rparr> in
          if \<not> ds_receive_event d \<or> \<not> ds_announce_event d
          then (Some (RuntimeError ''Failed to create discovery events''), s2)
          else if ds_add_receive d \<noteq> 0 \<or> ds_add_announce d \<noteq> 0
          then (Some (RuntimeError ''Failed to activate discovery events''), s2)
          else (None, s2))"

definition open_discovery ::
  "('db, 'j) Env \<Rightarrow> Config \<Rightarrow> discovery_setup \<Rightarrow> 'db Node \<Rightarrow> (resources result \<times> release list) \<times> 'db Node" where
  "open_discovery W C d n =
     (case acquire W C d of
        (Some e, s) \<Rightarrow> ((Inl e, fst (close_resources s)), n)
      | (None, s) \<Rightarrow> ((Inr s, []), announce W C n))"

section \<open>What the receive loop keeps\<close>

text \<open>Every peer is stored under its id, has a port, and is another node.\<close>

definition peers_ok :: "bytes \<Rightarrow> PeerRegistry \<Rightarrow> bool" where
  "peers_ok self peers \<longleftrightarrow>
     registry_inv peers \<and> (\<forall>(k, p) \<in> set peers. k \<noteq> [] \<and> k \<noteq> self \<and> http_port p \<noteq> 0)"

lemma peers_ok_Nil [simp]: "peers_ok self []"
  by (simp add: peers_ok_def)

lemma peers_ok_update:
  assumes "peers_ok self peers" and "peer_node_id p \<noteq> []" and "peer_node_id p \<noteq> self" and "http_port p \<noteq> 0"
  shows "peers_ok self (update p peers)"
proof -
  have "distinct (map fst peers)" using assms(1) by (simp add: peers_ok_def registry_inv_def)
  then have "set (update p peers) = insert (peer_node_id p, p) {e \<in> set peers. fst e \<noteq> peer_node_id p}"
    by (simp add: update_def set_insert_or_assign)
  then show ?thesis
    using assms registry_inv_update [of peers p] by (auto simp: peers_ok_def)
qed

lemma read_announcement_ok:
  "read_announcement J self v = Some a \<Longrightarrow>
   an_node_id a \<noteq> [] \<and> an_node_id a \<noteq> self \<and> 1 \<le> an_port a \<and> an_port a \<le> 65535"
  by (auto simp: read_announcement_def Let_def split: option.splits if_splits)

lemma port_word:
  assumes "1 \<le> n" and "n \<le> 65535"
  shows "unat (word_of_int n :: u16) = nat n" and "(word_of_int n :: u16) \<noteq> 0"
proof -
  have "uint (word_of_int n :: u16) = n"
    using assms by (simp add: uint_word_of_int_eq take_bit_int_eq_self)
  then show u: "unat (word_of_int n :: u16) = nat n"
    by (simp flip: nat_uint_eq)
  then show "(word_of_int n :: u16) \<noteq> 0" using assms by auto
qed

lemma apply_announcement_frame:
  "apply_announcement W C a sender n =
     n\<lparr>n_peers := n_peers (apply_announcement W C a sender n), n_clock := n_clock (apply_announcement W C a sender n)\<rparr>"
  by (simp add: apply_announcement_def Let_def split: option.splits)

lemma apply_announcement_peers:
  assumes "read_announcement J self v = Some a" and "peers_ok self (n_peers n)"
  shows "peers_ok self (n_peers (apply_announcement W C a sender n))"
  using assms(2) read_announcement_ok [OF assms(1)] port_word [of "an_port a"]
  by (auto simp: apply_announcement_def Let_def intro!: peers_ok_update split: option.splits)

text \<open>The receive loop keeps whatever the processing of a valid announcement keeps.\<close>

lemma receive_one_keeps:
  assumes "\<And>n v a sender. P n \<Longrightarrow> read_announcement (js W) (node_id (cfg_identity C)) v = Some a \<Longrightarrow>
    P (apply_announcement W C a sender n)"
  shows "keeps P (receive_one W C d sender)"
proof (rule keepsI)
  fix n r n'
  assume x: "receive_one W C d sender n = (r, n')" and l: "P n"
  have "n' = n \<or> (\<exists>v a. read_announcement (js W) (node_id (cfg_identity C)) v = Some a \<and>
      n' = apply_announcement W C a sender n)"
    using x by (auto simp: receive_one_def andthen_def Let_def split: if_splits sum.splits option.splits)
  then show "P n'" using l assms by auto
qed

lemma receive_keeps:
  assumes "\<And>n v a sender. P n \<Longrightarrow> read_announcement (js W) (node_id (cfg_identity C)) v = Some a \<Longrightarrow>
    P (apply_announcement W C a sender n)"
  shows "keeps P (receive_announcements W C rs)"
proof (induction rs)
  case Nil
  then show ?case by (simp add: keeps_def)
next
  case (Cons x rs)
  show ?case
  proof (cases x)
    case (Received d s)
    then show ?thesis using Cons by (simp add: keeps_andthen receive_one_keeps assms)
  qed (simp_all add: keeps_def)
qed

text \<open>Nothing of the node changes but its peers and its clock.\<close>

definition heard :: "'db Node \<Rightarrow> 'db Node \<Rightarrow> bool" where
  "heard n0 n \<longleftrightarrow> n = n0\<lparr>n_peers := n_peers n, n_clock := n_clock n\<rparr>"

lemma heard_trans: "heard n0 n \<Longrightarrow> heard n n' \<Longrightarrow> heard n0 n'"
  by (cases n0; cases n; cases n') (simp add: heard_def)

lemma heard_fields:
  assumes "heard n0 n"
  shows "n_store n = n_store n0" "n_next_sequence n = n_next_sequence n0" "n_calls n = n_calls n0"
    "n_pending n = n_pending n0" "n_handles n = n_handles n0" "n_events n = n_events n0"
  using assms by (cases n0; cases n; simp add: heard_def)+

lemma receive_heard: "heard n (receive_callback W C rs n)"
proof -
  have "keeps (heard n) (receive_announcements W C rs)"
    by (rule receive_keeps) (erule heard_trans [OF _ apply_announcement_frame [folded heard_def]])
  moreover have "heard n n" by (simp add: heard_def)
  ultimately show ?thesis unfolding receive_callback_def by (rule keepsD [OF _ surjective_pairing])
qed

lemma receive_peers_ok:
  assumes "peers_ok (node_id (cfg_identity C)) (n_peers n)"
  shows "peers_ok (node_id (cfg_identity C)) (n_peers (receive_callback W C rs n))"
proof -
  have "keeps (\<lambda>n. peers_ok (node_id (cfg_identity C)) (n_peers n)) (receive_announcements W C rs)"
    by (rule receive_keeps) (rule apply_announcement_peers)
  then show ?thesis
    using assms unfolding receive_callback_def by (rule keepsD [OF _ surjective_pairing])
qed

section \<open>Properties\<close>

text \<open>
  C25: whatever datagrams arrive, malformed and hostile ones included, the receive loop changes
  only the peers and the clock; every peer keeps being stored under its own id, has a port
  between 1 and 65535 and is not the node itself.
\<close>

theorem receive_keeps_peers:
  assumes "peers_ok (node_id (cfg_identity C)) (n_peers n)"
  shows "peers_ok (node_id (cfg_identity C)) (n_peers (receive_callback W C rs n)) \<and>
    (\<exists>peers clock. receive_callback W C rs n = n\<lparr>n_peers := peers, n_clock := clock\<rparr>)"
  using receive_peers_ok [OF assms] receive_heard [of n W C rs] unfolding heard_def by blast

theorem receive_keeps_peers_witness:
  "peers_ok ''node-a'' (n_peers (receive_callback sample_env sample_config
     [Received ''{}'' None, RecvError ''reset''] sample_node))"
  using receive_keeps_peers [of sample_config sample_node sample_env "[Received ''{}'' None, RecvError ''reset'']"]
  by (simp add: sample_config_def)

text \<open>
  C26: after synchronizing with an authority the node's time is within 250 milliseconds of the
  authority's, whether or not the host clock could be set; a time that is not positive is ignored.
\<close>

theorem synchronize_time_close:
  "(0 < t \<longrightarrow> \<bar>current_time_ms (synchronize_time f t c) - t\<bar> < 250) \<and>
   (t \<le> 0 \<longrightarrow> synchronize_time f t c = c)"
proof (cases "set_system_time_ms f t c")
  case (Pair ok c')
  then show ?thesis
  proof (cases ok)
    case True
    then show ?thesis
      using set_system_time_ms_True [of f t c c'] Pair
      by (auto simp: synchronize_time_def current_time_ms_def system_time_ms_def current_time_offset_ms_def Let_def)
  next
    case False
    then show ?thesis
      using set_system_time_ms_False [of f t c c'] Pair
      by (auto simp: synchronize_time_def current_time_ms_def system_time_ms_def current_time_offset_ms_def
          set_time_offset_ms_def Let_def)
  qed
qed

theorem synchronize_time_close_witness:
  "\<bar>current_time_ms (synchronize_time (\<lambda>_. False) 5000 \<lparr>system_ms = 100, time_offset_ms = 0\<rparr>) - 5000\<bar> < 250"
  using synchronize_time_close [of 5000 "\<lambda>_. False" "\<lparr>system_ms = 100, time_offset_ms = 0\<rparr>"] by simp

section \<open>An announcement arrives\<close>

definition valid_id :: "bytes \<Rightarrow> bool" where
  "valid_id s \<longleftrightarrow> s \<noteq> [] \<and> no_nul s \<and> length s \<le> 64"

definition announceable :: "Config \<Rightarrow> bool" where
  "announceable C \<longleftrightarrow> valid_id (node_id (cfg_identity C)) \<and> valid_id (node_callsign (cfg_identity C)) \<and> cfg_port C \<noteq> 0"

context json_library
begin

lemma announcement_reads:
  assumes v: "build_object J (announce_members J C now) = Inr v" and c: "announceable C" and now: "is_int64 now"
    and self: "self \<noteq> node_id (cfg_identity C)"
  shows "json_is_object J v \<and> read_announcement J self v =
    Some \<lparr>an_node_id = node_id (cfg_identity C), an_callsign = node_callsign (cfg_identity C),
      an_app_version = app_version, an_port = int (unat (cfg_port C)),
      an_is_authority = (cfg_time_sync_mode C = Authority),
      an_time_ms = (if cfg_time_sync_mode C = Authority then now else 0)\<rparr>"
proof -
  have ob: "json_is_object J v" and get: "object_get_ex J v k = map_of (rev (announce_members J C now)) k" for k
    using build_object_ok [of "announce_members J C now"] v by auto
  have str: "json_get_string J v k = Some s"
    if "map_of (rev (announce_members J C now)) k = Some (new_string J (c_str s))" "valid_id s" for k s
    using get_cstring_member [of v k s] that get by (simp add: valid_id_def)
  have strings: "json_get_string J v ''type'' = Some ''announce''"
      "json_get_string J v ''node_id'' = Some (node_id (cfg_identity C))"
      "json_get_string J v ''callsign'' = Some (node_callsign (cfg_identity C))"
      "json_get_string J v ''app_version'' = Some app_version"
    using c by (auto intro!: str simp: announce_members_def announceable_def valid_id_def app_version_def)
  have port: "1 \<le> int (unat (cfg_port C)) \<and> int (unat (cfg_port C)) \<le> 65535"
  proof -
    have "uint (cfg_port C) \<noteq> 0" using c by (simp add: announceable_def uint_0_iff)
    moreover have "uint (cfg_port C) < 65536" using uint_lt2p [of "cfg_port C"] by simp
    ultimately have "1 \<le> uint (cfg_port C) \<and> uint (cfg_port C) \<le> 65535"
      using uint_ge_0 [of "cfg_port C"] by linarith
    then show ?thesis by simp
  qed
  then have ints: "object_is_type J (new_int J (int (unat (cfg_port C)))) json_type_int"
      "get_int64 J (new_int J (int (unat (cfg_port C)))) = int (unat (cfg_port C))"
      "object_is_type J (new_int J protocol_version) json_type_int" "get_int J (new_int J protocol_version) = protocol_version"
    using new_int_ok [of "int (unat (cfg_port C))"] new_int_ok [of protocol_version]
    by (simp_all add: int32_range_def protocol_version_def)
  have auth: "read_authority J v = Some (cfg_time_sync_mode C = Authority, if cfg_time_sync_mode C = Authority then now else 0)"
    using get new_boolean_ok new_int64_ok [OF now] by (simp add: read_authority_def announce_members_def)
  show ?thesis
    using ob get strings ints auth port c self
    by (simp add: read_announcement_def announce_members_def Let_def announceable_def valid_id_def)
qed

end

text \<open>
  C24: what a node announces, its neighbours learn: the datagram that \<open>send_announce\<close> sends is
  accepted by the receive loop of every other node, which then lists the sender with its id,
  callsign, port and version, the address the datagram came from, and as active.
\<close>

theorem announcement_is_learnt:
  assumes "json_library (js W)" and "build_object (js W) (announce_members (js W) A now) = Inr v"
    and "serialize_json (js W) v = Inr payload" and "reads_back (js W) v"
    and "length payload \<le> max_datagram_bytes" and "announceable A" and "is_int64 now"
    and "node_id (cfg_identity B) \<noteq> node_id (cfg_identity A)" and "registry_inv (n_peers n)"
    and "receive_callback W B [Received payload (Some from)] n = n'"
  shows "\<lparr>peer_node_id = node_id (cfg_identity A), peer_callsign = node_callsign (cfg_identity A),
      address = c_str from, http_port = cfg_port A, peer_app_version = app_version,
      last_seen_ms = current_time_ms (n_clock n')\<rparr> \<in> set (active_peers (current_time_ms (n_clock n')) (n_peers n'))"
proof -
  let ?a = "\<lparr>an_node_id = node_id (cfg_identity A), an_callsign = node_callsign (cfg_identity A),
      an_app_version = app_version, an_port = int (unat (cfg_port A)),
      an_is_authority = (cfg_time_sync_mode A = Authority),
      an_time_ms = (if cfg_time_sync_mode A = Authority then now else 0)\<rparr>"
  have r: "json_is_object (js W) v" "read_announcement (js W) (node_id (cfg_identity B)) v = Some ?a"
    using json_library.announcement_reads [OF assms(1,2,6-8)] by auto
  have p: "parse_json (js W) payload = Inr \<lparr>parsed_object = v, parsed_ok = True, parse_end = length payload\<rparr>"
    using assms(3,4) by (auto simp: reads_back_def)
  have n': "n' = apply_announcement W B ?a (Some from) n"
    using assms(5,10) p r by (simp add: receive_callback_def receive_one_def andthen_def)
  show ?thesis
    unfolding n' by (simp add: apply_announcement_def Let_def registry.upd_replaces [OF assms(9)] is_active_def
        peer_timeout_ms_def)
qed

definition sample_announcement :: json where
  "sample_announcement = add_members sample_jsonc (announce_members sample_jsonc sample_config 1) (JObject [])"

lemma to_string_7777: "to_string 7777 = ''7777''"
  using char_of_char [of "CHR ''7''"]
  by (simp add: to_string.simps [of 7777] to_string.simps [of 777] to_string.simps [of 77] to_string.simps [of 7] digit_def)

lemma announcement_text:
  \<open>json_print sample_announcement = ''{"protocol":1,"type":"announce","node_id":"node-a","callsign":"Bolt",'' @
     ''"http_port":7777,"app_version":"'' @ app_version @ ''"}''\<close>
  by (simp add: sample_announcement_def announce_members_def add_members_def sample_jsonc_def json_values_def sample_config_def
      protocol_version_def print_int_def to_string_1 to_string_7777 print_string_def escape_char_def c_str_def app_version_def)

theorem announcement_is_learnt_witness:
  "\<exists>p \<in> set (n_peers (receive_callback sample_env
       (sample_config\<lparr>cfg_identity := \<lparr>node_id = ''node-b'', node_callsign = ''Nut''\<rparr>\<rparr>)
       [Received (json_print sample_announcement) (Some ''10.0.0.5'')] sample_node)). fst p = ''node-a'' \<and> address (snd p) = ''10.0.0.5''"
proof -
  let ?B = "sample_config\<lparr>cfg_identity := \<lparr>node_id = ''node-b'', node_callsign = ''Nut''\<rparr>\<rparr>"
  let ?d = "[Received (json_print sample_announcement) (Some ''10.0.0.5'')]"
  let ?n = "receive_callback sample_env ?B ?d sample_node"
  have v: "build_object (js sample_env) (announce_members (js sample_env) sample_config 1) = Inr sample_announcement"
    by (simp add: build_object_def make_json_object_def sample_announcement_def sample_jsonc_def json_values_def)
  have s: "serialize_json (js sample_env) sample_announcement = Inr (json_print sample_announcement)"
    by (simp add: sample_serialize)
  have c: "announceable sample_config"
    by (simp add: announceable_def valid_id_def sample_config_def)
  have w: "wf_json sample_announcement"
    by (simp add: sample_announcement_def announce_members_def add_members_def sample_jsonc_def json_values_def sample_config_def
        protocol_version_def is_int64_def int64_min_def int64_max_def)
  from announcement_is_learnt [OF _ v s _ _ c _ _ _ refl, of ?B sample_node "''10.0.0.5''"]
  have "map_of (n_peers ?n) ''node-a'' = Some \<lparr>peer_node_id = ''node-a'', peer_callsign = ''Bolt'',
      address = ''10.0.0.5'', http_port = 7777, peer_app_version = app_version,
      last_seen_ms = current_time_ms (n_clock ?n)\<rparr>"
    using sample_jsonc_library sample_reads_back [OF w] receive_keeps_peers [of ?B sample_node sample_env ?d]
    by (simp add: is_int64_def int64_min_def int64_max_def max_datagram_bytes_def sample_config_def announcement_text
        active_peers_iff peers_ok_def c_str_def app_version_def)
  then show ?thesis using map_of_SomeD by force
qed

text \<open>
  A failed start leaks nothing: when the constructor throws, it has released exactly the
  socket and the events it had acquired, and it has announced nothing.
\<close>

theorem discovery_open_releases:
  assumes "open_discovery W C d n = ((Inl e, rel), n')"
  shows "n' = n \<and> distinct rel \<and>
    (\<exists>s. acquire W C d = (Some e, s) \<and>
      (CloseSocket (res_socket s) \<in> set rel \<longleftrightarrow> 0 \<le> res_socket s) \<and>
      (FreeReceiveEvent \<in> set rel \<longleftrightarrow> res_receive s) \<and> (FreeAnnounceEvent \<in> set rel \<longleftrightarrow> res_announce s) \<and>
      snd (close_resources s) = \<lparr>res_socket = min (res_socket s) (- 1), res_receive = False, res_announce = False\<rparr>)"
  using assms
  by (auto simp: open_discovery_def close_resources_def min_def split: prod.splits option.splits)

theorem discovery_open_releases_witness:
  "\<exists>e. open_discovery sample_env sample_config
     \<lparr>ds_socket = 7, ds_reuseaddr = 0, ds_broadcast = 0, ds_nonblocking = 0, ds_bind = 0, ds_receive_event = True,
      ds_announce_event = False, ds_add_receive = 0, ds_add_announce = 0\<rparr> sample_node =
     ((Inl e, [FreeReceiveEvent, CloseSocket 7]), sample_node) \<and> distinct [FreeReceiveEvent, CloseSocket 7]"
proof -
  let ?d = "\<lparr>ds_socket = 7, ds_reuseaddr = 0, ds_broadcast = 0, ds_nonblocking = 0, ds_bind = 0, ds_receive_event = True,
      ds_announce_event = False, ds_add_receive = 0, ds_add_announce = 0\<rparr>"
  have x: "open_discovery sample_env sample_config ?d sample_node =
      ((Inl (RuntimeError ''Failed to create discovery events''), [FreeReceiveEvent, CloseSocket 7]), sample_node)"
    by (simp add: open_discovery_def acquire_def close_resources_def no_resources_def sample_os_def Let_def)
  from discovery_open_releases [OF x] x show ?thesis by auto
qed

end
