(* ===== verification/Les_Cli.thy ===== *)
theory Les_Cli
  imports Les_Http_Api
begin

text \<open>
  \<open>main.cpp\<close>: the command line.  \<open>std::stoul\<close> is modelled after the C++ standard (white space,
  sign and digits of \<open>strtoul\<close>, its range check and its wrap-around on a minus sign) for an
  \<open>unsigned long\<close> of the given number of bits; \<open>std::isalnum\<close> is that of the \<open>C\<close> locale,
  which the program never leaves.
\<close>

section \<open>Ports\<close>

definition is_space :: "char \<Rightarrow> bool" where
  "is_space c \<longleftrightarrow> c = CHR 0x20 \<or> (9 \<le> (of_char c :: nat) \<and> (of_char c :: nat) \<le> 13)"

definition is_digit :: "char \<Rightarrow> bool" where
  "is_digit c \<longleftrightarrow> 48 \<le> (of_char c :: nat) \<and> (of_char c :: nat) \<le> 57"

definition stoul :: "nat \<Rightarrow> bytes \<Rightarrow> (nat \<times> nat) result" where
  "stoul bits s =
     (let text = c_str s;
          spaces = length (takeWhile is_space text);
          rest = drop spaces text;
          signed = (rest \<noteq> [] \<and> (hd rest = CHR ''-'' \<or> hd rest = CHR ''+''));
          negative = (rest \<noteq> [] \<and> hd rest = CHR ''-'');
          digits = takeWhile is_digit (if signed then tl rest else rest) in
      if digits = [] then Inl (InvalidArgument ''stoul'')
      else if dec_value digits \<ge> 2 ^ bits then Inl (OutOfRange ''stoul'')
      else Inr (if negative then (2 ^ bits - dec_value digits) mod 2 ^ bits else dec_value digits,
                spaces + (if signed then 1 else 0) + length digits))"

definition parse_port :: "nat \<Rightarrow> bytes \<Rightarrow> u16 result" where
  "parse_port bits s =
     result_bind (stoul bits s) (\<lambda>(parsed, consumed).
       if consumed \<noteq> length s \<or> parsed = 0 \<or> parsed > 65535
       then Inl (RuntimeError ''Port must be between 1 and 65535'')
       else Inr (word_of_nat parsed))"

section \<open>Identities\<close>

definition is_alnum :: "char \<Rightarrow> bool" where
  "is_alnum c \<longleftrightarrow> is_digit c \<or> (65 \<le> (of_char c :: nat) \<and> (of_char c :: nat) \<le> 90) \<or>
     (97 \<le> (of_char c :: nat) \<and> (of_char c :: nat) \<le> 122)"

definition is_valid_node_id :: "bytes \<Rightarrow> bool" where
  "is_valid_node_id s \<longleftrightarrow>
     \<not> (s = [] \<or> length s > 64) \<and>
     list_all (\<lambda>c. is_alnum c \<or> c = CHR ''-'' \<or> c = CHR ''_'' \<or> c = CHR ''.'') s"

definition validate_callsign :: "bytes \<Rightarrow> unit result" where
  "validate_callsign s =
     (if s = [] then Inl (RuntimeError ''Callsign cannot be empty'')
      else if length s > 64 then Inl (RuntimeError ''Callsign cannot exceed 64 UTF-8 bytes'')
      else Inr ())"

definition parse_time_sync_mode :: "bytes \<Rightarrow> TimeSyncMode result" where
  "parse_time_sync_mode s =
     (if s = ''off'' then Inr Off
      else if s = ''authority'' then Inr Authority
      else if s = ''client'' then Inr Client
      else Inl (RuntimeError ''Time sync mode must be off, authority or client''))"

section \<open>The argument loop\<close>

record Options =
  opt_node_id :: bytes
  opt_callsign :: bytes
  opt_bind_address :: bytes
  opt_port :: u16
  opt_discovery_address :: bytes
  opt_discovery_interface :: bytes
  opt_discovery_port :: u16
  opt_time_sync_mode :: TimeSyncMode
  opt_time_authority_id :: bytes
  opt_database_path :: bytes

definition default_options :: Options where
  "default_options =
     \<lparr>opt_node_id = ''node-local'', opt_callsign = ''Local'', opt_bind_address = ''127.0.0.1'', opt_port = 7777,
      opt_discovery_address = ''255.255.255.255'', opt_discovery_interface = [], opt_discovery_port = 7777,
      opt_time_sync_mode = Off, opt_time_authority_id = [], opt_database_path = []\<rparr>"

definition option_names :: "bytes list" where
  "option_names =
     [''--node-id'', ''--callsign'', ''--bind'', ''--port'', ''--discovery-address'', ''--discovery-port'',
      ''--discovery-interface'', ''--time-sync-mode'', ''--time-authority-id'', ''--database'']"

definition set_option :: "nat \<Rightarrow> bytes \<Rightarrow> bytes \<Rightarrow> Options \<Rightarrow> Options result" where
  "set_option bits argument v s =
     (if argument = ''--node-id'' then Inr (s\<lparr>opt_node_id := v\<rparr>)
      else if argument = ''--callsign'' then Inr (s\<lparr>opt_callsign := v\<rparr>)
      else if argument = ''--bind'' then Inr (s\<lparr>opt_bind_address := v\<rparr>)
      else if argument = ''--port'' then
        result_bind (parse_port bits v) (\<lambda>p. Inr (s\<lparr>opt_port := p\<rparr>))
      else if argument = ''--discovery-address'' then Inr (s\<lparr>opt_discovery_address := v\<rparr>)
      else if argument = ''--discovery-port'' then
        result_bind (parse_port bits v) (\<lambda>p. Inr (s\<lparr>opt_discovery_port := p\<rparr>))
      else if argument = ''--discovery-interface'' then
        (if v = [] then Inl (RuntimeError ''Discovery interface cannot be empty'')
         else Inr (s\<lparr>opt_discovery_interface := v\<rparr>))
      else if argument = ''--time-sync-mode'' then
        result_bind (parse_time_sync_mode v) (\<lambda>m. Inr (s\<lparr>opt_time_sync_mode := m\<rparr>))
      else if argument = ''--time-authority-id'' then
        (if \<not> is_valid_node_id v then Inl (RuntimeError ''Time authority ID is invalid'')
         else Inr (s\<lparr>opt_time_authority_id := v\<rparr>))
      else Inr (s\<lparr>opt_database_path := v\<rparr>))"

definition read_argument_value :: "bytes list \<Rightarrow> bytes \<Rightarrow> (bytes \<times> bytes list) result" where
  "read_argument_value rest option' =
     (case rest of
        [] \<Rightarrow> Inl (RuntimeError (option' @ '' requires a value''))
      | v # rest' \<Rightarrow> Inr (v, rest'))"

text \<open>\<open>None\<close>: the help was printed and the program ends.\<close>

function parse_arguments :: "nat \<Rightarrow> bytes list \<Rightarrow> Options \<Rightarrow> Options option result" where
  "parse_arguments bits [] s = Inr (Some s)"
| "parse_arguments bits (argument # rest) s =
     (if argument = ''--help'' then Inr None
      else if argument \<in> set option_names then
        (case read_argument_value rest argument of
           Inl e \<Rightarrow> Inl e
         | Inr (v, rest') \<Rightarrow>
             (case set_option bits argument v s of
                Inl e \<Rightarrow> Inl e
              | Inr s' \<Rightarrow> parse_arguments bits rest' s'))
      else Inl (RuntimeError (''Unknown argument: '' @ argument)))"
  by pat_completeness auto
termination
  by (relation "measure (\<lambda>(bits, args, s). length args)") (auto simp: read_argument_value_def split: list.splits)

datatype startup = Help | Start Options | Failed exn

definition main_startup :: "nat \<Rightarrow> bytes list \<Rightarrow> startup" where
  "main_startup bits args =
     (case parse_arguments bits args default_options of
        Inl e \<Rightarrow> Failed e
      | Inr None \<Rightarrow> Help
      | Inr (Some s) \<Rightarrow>
          if \<not> is_valid_node_id (opt_node_id s)
          then Failed (RuntimeError (''Node ID must contain only letters, '' @ ''numbers, period, underscore or hyphen''))
          else
            (case validate_callsign (opt_callsign s) of
               Inl e \<Rightarrow> Failed e
             | Inr _ \<Rightarrow>
                 Start (if opt_database_path s = []
                   then s\<lparr>opt_database_path := ''les-chat-'' @ opt_node_id s @ ''.db''\<rparr> else s)))"

text \<open>What \<open>main\<close> hands to the constructor of \<open>Application\<close>.\<close>

definition config_of :: "Options \<Rightarrow> bytes \<Rightarrow> Config" where
  "config_of s local_address =
     \<lparr>cfg_identity = \<lparr>node_id = opt_node_id s, node_callsign = opt_callsign s\<rparr>, cfg_bind_address = opt_bind_address s,
      cfg_port = opt_port s, cfg_discovery_address = opt_discovery_address s,
      cfg_discovery_interface = opt_discovery_interface s, cfg_discovery_port = opt_discovery_port s,
      cfg_time_sync_mode = opt_time_sync_mode s, cfg_time_authority_id = opt_time_authority_id s,
      cfg_database_path = opt_database_path s, cfg_local_address = local_address\<rparr>"

text \<open>The help text, line by line.\<close>

definition help_lines :: "bytes \<Rightarrow> bytes list" where
  "help_lines program =
     [''Usage: '' @ program @ '' [options]'',
      [],
      ''Options:'',
      ''  --node-id ID      Stable node identifier'',
      ''                    Default: node-local'',
      ''  --callsign NAME   Display callsign'',
      ''                    Default: Local'',
      ''  --bind ADDRESS    Address to listen on'',
      ''                    Default: 127.0.0.1'',
      ''  --port PORT       TCP port'',
      ''                    Default: 7777'',
      ''  --discovery-address ADDRESS'',
      ''                    UDP announce destination'',
      ''                    Default: 255.255.255.255'',
      ''  --discovery-interface NAME'',
      ''                    UDP announce egress interface'',
      ''                    Default: automatic routing'',
      ''  --discovery-port PORT'',
      ''                    UDP discovery port'',
      ''                    Default: 7777'',
      ''  --time-sync-mode MODE'',
      ''                    off, authority or client'',
      ''                    Default: off'',
      ''  --time-authority-id ID'',
      ''                    Optional trusted MeshGate node ID'',
      ''  --database PATH  SQLite message database'',
      ''                    Default: les-chat-<node-id>.db'',
      ''  --help            Show this help'']"

definition print_help :: "bytes \<Rightarrow> bytes" where
  "print_help program = concat (map (\<lambda>line. line @ [CHR 0x0A]) (help_lines program))"

section \<open>Facts\<close>

lemma parse_port_ok:
  assumes "parse_port bits s = Inr p"
  shows "\<exists>n consumed. stoul bits s = Inr (n, consumed) \<and> 1 \<le> n \<and> n \<le> 65535 \<and> consumed = length s \<and>
    p = word_of_nat n \<and> unat p = n"
proof -
  obtain n k where r: "stoul bits s = Inr (n, k)"
    using assms by (cases "stoul bits s") (auto simp: parse_port_def)
  then have "k = length s" "1 \<le> n" "n \<le> 65535" "p = word_of_nat n"
    using assms by (auto simp: parse_port_def split: if_splits)
  moreover have "unat (word_of_nat n :: u16) = n" using \<open>n \<le> 65535\<close> by (simp add: unat_of_nat)
  ultimately show ?thesis using r by auto
qed

lemma parse_port_nonzero: "parse_port bits s = Inr p \<Longrightarrow> p \<noteq> 0"
  using parse_port_ok by fastforce

lemma digits_of_to_string: "takeWhile is_digit (to_string n) = to_string n"
  using to_string_chars [of _ n] by (fastforce simp: takeWhile_eq_all_conv is_digit_def)

lemma stoul_to_string:
  assumes "n < 2 ^ bits"
  shows "stoul bits (to_string n) = Inr (n, length (to_string n))"
proof -
  obtain c cs where t: "to_string n = c # cs" by (cases "to_string n") auto
  have c: "48 \<le> (of_char c :: nat)" "(of_char c :: nat) < 58" using to_string_chars [of c n] t by auto
  have "\<not> is_space c" "c \<noteq> CHR ''-''" "c \<noteq> CHR ''+''" using c by (auto simp: is_space_def)
  then show ?thesis
    using assms digits_of_to_string [of n] dec_value_to_string [of n] no_nul_to_string [of n]
    by (simp add: stoul_def Let_def t)
qed

lemma valid_node_id_chars:
  assumes "is_valid_node_id s"
  shows "CHR '':'' \<notin> set s" and "no_nul s" and "s \<noteq> [] \<and> length s \<le> 64"
proof -
  have "\<And>c. c \<in> set s \<Longrightarrow> is_alnum c \<or> c = CHR ''-'' \<or> c = CHR ''_'' \<or> c = CHR ''.''"
    using assms by (auto simp: is_valid_node_id_def list_all_iff)
  then show "CHR '':'' \<notin> set s" "no_nul s"
    by (force simp: is_alnum_def is_digit_def no_nul_def)+
  show "s \<noteq> [] \<and> length s \<le> 64" using assms by (auto simp: is_valid_node_id_def)
qed

definition ports_ok :: "Options \<Rightarrow> bool" where
  "ports_ok s \<longleftrightarrow> opt_port s \<noteq> 0 \<and> opt_discovery_port s \<noteq> 0"

lemma set_option_ports: "set_option bits a v s = Inr s' \<Longrightarrow> ports_ok s \<Longrightarrow> ports_ok s'"
  by (cases "parse_port bits v"; cases "parse_time_sync_mode v")
     (auto simp: set_option_def ports_ok_def parse_port_nonzero split: if_splits)

lemma parse_arguments_ports: "parse_arguments bits args s = Inr (Some s') \<Longrightarrow> ports_ok s \<Longrightarrow> ports_ok s'"
  by (induction bits args s rule: parse_arguments.induct)
     (auto split: if_splits sum.splits, use set_option_ports in blast)

section \<open>Properties\<close>

text \<open>
  C36: \<open>parse_port\<close> returns only ports between 1 and 65535, and reads back every such port that
  is printed in decimal, on every platform with at least 17 bits in an \<open>unsigned long\<close>.
\<close>

theorem parse_port_roundtrip:
  assumes "17 \<le> bits"
  shows "(1 \<le> n \<and> n \<le> 65535 \<longrightarrow> parse_port bits (to_string n) = Inr (word_of_nat n)) \<and>
    (\<forall>p. parse_port bits s = Inr p \<longrightarrow> 1 \<le> unat p \<and> unat p \<le> 65535)"
proof
  show "\<forall>p. parse_port bits s = Inr p \<longrightarrow> 1 \<le> unat p \<and> unat p \<le> 65535"
    using parse_port_ok by fastforce
  have "(65535 :: nat) < 2 ^ 17" by simp
  also have "(2 :: nat) ^ 17 \<le> 2 ^ bits" using assms by (intro power_increasing) simp_all
  finally have "(65535 :: nat) < 2 ^ bits" .
  then show "1 \<le> n \<and> n \<le> 65535 \<longrightarrow> parse_port bits (to_string n) = Inr (word_of_nat n)"
    by (simp add: parse_port_def stoul_to_string)
qed

theorem parse_port_roundtrip_witness:
  "parse_port 32 (to_string 7777) = Inr 7777"
  using parse_port_roundtrip [of 32 7777 "[]"] by simp

text \<open>
  \<open>parse_port\<close> also accepts texts that are no port numbers: leading white space, a plus sign,
  and a negative number that wraps to a port.
\<close>

theorem parse_port_accepts_negative:
  "parse_port 64 ''-18446744073709551615'' = Inr 1 \<and> parse_port 32 ''-4294967295'' = Inr 1 \<and>
   parse_port 64 '' +80'' = Inr 80"
  by (simp add: parse_port_def stoul_def c_str_def is_space_def is_digit_def dec_value_def Let_def)

lemma startup_facts:
  assumes "main_startup bits args = Start s"
  shows "is_valid_node_id (opt_node_id s)" "opt_callsign s \<noteq> []" "length (opt_callsign s) \<le> 64"
    "opt_port s \<noteq> 0" "opt_discovery_port s \<noteq> 0" "opt_database_path s \<noteq> []"
    "valid_identity (cfg_identity (config_of s addr))"
proof -
  obtain s0 where p: "parse_arguments bits args default_options = Inr (Some s0)"
    and v: "is_valid_node_id (opt_node_id s0)" "opt_callsign s0 \<noteq> []" "length (opt_callsign s0) \<le> 64"
    and s: "s = (if opt_database_path s0 = [] then s0\<lparr>opt_database_path := ''les-chat-'' @ opt_node_id s0 @ ''.db''\<rparr> else s0)"
    using assms by (auto simp: main_startup_def validate_callsign_def split: sum.splits option.splits if_splits)
  have "ports_ok s0"
    by (rule parse_arguments_ports [OF p]) (simp add: ports_ok_def default_options_def)
  then show "is_valid_node_id (opt_node_id s)" "opt_callsign s \<noteq> []" "length (opt_callsign s) \<le> 64"
    "opt_port s \<noteq> 0" "opt_discovery_port s \<noteq> 0" "opt_database_path s \<noteq> []"
    "valid_identity (cfg_identity (config_of s addr))"
    using v s valid_node_id_chars(3) [OF v(1)] by (auto simp: ports_ok_def valid_identity_def config_of_def)
qed

text \<open>
  C35: the daemon starts only with a valid configuration: a node id of 1 to 64 letters, digits,
  hyphens, underscores and periods, a callsign of 1 to 64 bytes, non-zero ports and a database
  path.
\<close>

theorem startup_valid:
  assumes "main_startup bits args = Start s"
  shows "is_valid_node_id (opt_node_id s) \<and> opt_callsign s \<noteq> [] \<and> length (opt_callsign s) \<le> 64 \<and>
    opt_port s \<noteq> 0 \<and> opt_discovery_port s \<noteq> 0 \<and> opt_database_path s \<noteq> [] \<and>
    valid_identity (cfg_identity (config_of s addr))"
  using startup_facts [OF assms] by blast

lemma sample_startup:
  "main_startup 64 [''--node-id'', ''node-a'', ''--port'', to_string 80] =
     Start (default_options\<lparr>opt_node_id := ''node-a'', opt_port := 80, opt_database_path := ''les-chat-node-a.db''\<rparr>)"
proof -
  have "parse_port 64 (to_string 80) = Inr 80" by (simp add: parse_port_def stoul_to_string)
  then show ?thesis
    by (simp add: main_startup_def option_names_def read_argument_value_def set_option_def default_options_def validate_callsign_def
        is_valid_node_id_def is_alnum_def is_digit_def)
qed

theorem startup_valid_witness:
  "opt_database_path (default_options\<lparr>opt_node_id := ''node-a'', opt_port := 80,
     opt_database_path := ''les-chat-node-a.db''\<rparr>) \<noteq> []"
  using startup_valid [OF sample_startup, of "[]"] by blast

text \<open>
  Message ids identify messages across the mesh: two nodes that started with valid node ids
  never give the same id to two messages unless node and number agree.
\<close>

theorem message_ids_unique:
  assumes "is_valid_node_id a" and "is_valid_node_id b"
  shows "message_id_of a m = message_id_of b n \<longleftrightarrow> a = b \<and> m = n"
  using message_id_of_inject [OF _ valid_node_id_chars(1) [OF assms(1)] valid_node_id_chars(1) [OF assms(2)]]
  by auto

theorem message_ids_unique_witness:
  "message_id_of ''node-a'' 1 \<noteq> message_id_of ''node-b'' 1"
  using message_ids_unique [of "''node-a''" "''node-b''" 1 1]
  by (simp add: is_valid_node_id_def is_alnum_def is_digit_def)

text \<open>
  The help text is true: every option of the command line has its line in it, every option
  line in it is an option of the command line, and the defaults it names are those the program
  starts from.
\<close>

theorem help_matches_options:
  "list_all (\<lambda>name. list_ex (starts_with (''  '' @ name @ '' '')) (help_lines program)) (''--help'' # option_names) \<and>
   list_all (\<lambda>line. starts_with ''  --'' line \<longrightarrow>
     list_ex (\<lambda>name. starts_with (''  '' @ name @ '' '') line) (''--help'' # option_names)) (help_lines program) \<and>
   list_all (\<lambda>v. (''                    Default: '' @ v) \<in> set (help_lines program))
     [opt_node_id default_options, opt_callsign default_options, opt_bind_address default_options,
      opt_discovery_address default_options]"
  by (simp add: help_lines_def option_names_def default_options_def)

theorem help_matches_options_witness:
  "list_ex (starts_with ''  --port '') (help_lines ''les-chatd'')"
  using help_matches_options [of "''les-chatd''"] by (simp add: option_names_def)

end
