(* ===== verification/Les_App.thy ===== *)
theory Les_App
  imports Les_Sync Les_Discovery Les_Cli
begin

text \<open>
  \<open>application.cpp\<close>: the construction of the components in their order, and the event loop.
  libevent runs one callback at a time, so a run of the daemon is a sequence of callbacks; every
  callback of the sources catches its exceptions, so a step is a total function on the node.
\<close>

section \<open>Start\<close>

record interface_entry =
  ifa_name :: "bytes option"
  ifa_inet :: bool
  ifa_text :: "bytes option"

definition matches_interface :: "bytes \<Rightarrow> interface_entry \<Rightarrow> bool" where
  "matches_interface name i \<longleftrightarrow> ifa_name i = Some name \<and> ifa_inet i"

definition interface_ipv4_address :: "interface_entry list option \<Rightarrow> bytes \<Rightarrow> bytes" where
  "interface_ipv4_address getifaddrs interface_name =
     (if interface_name = [] then []
      else
        (case getifaddrs of
           None \<Rightarrow> []
         | Some interfaces \<Rightarrow>
             (case find (matches_interface interface_name) interfaces of
                None \<Rightarrow> []
              | Some i \<Rightarrow> (case ifa_text i of None \<Rightarrow> [] | Some text \<Rightarrow> c_str text))))"

record app_setup =
  as_event_base :: bool
  as_interfaces :: "interface_entry list option"
  as_discovery :: discovery_setup
  as_sync_timer :: bool
  as_sync_add :: int
  as_http_new :: bool
  as_http_bind :: int

definition open_sync :: "app_setup \<Rightarrow> unit result" where
  "open_sync d =
     (if \<not> as_sync_timer d then Inl (RuntimeError ''Unable to create sync timer'')
      else if as_sync_add d \<noteq> 0 then Inl (RuntimeError ''Unable to activate sync timer'')
      else Inr ())"

definition open_http :: "Config \<Rightarrow> app_setup \<Rightarrow> unit result" where
  "open_http C d =
     (if \<not> as_http_new d then Inl (RuntimeError ''Failed to create HTTP server'')
      else if as_http_bind d \<noteq> 0 then
        Inl (RuntimeError (''Failed to bind HTTP server to '' @ cfg_bind_address C @ '':'' @ to_string (unat (cfg_port C))))
      else Inr ())"

definition initial_node :: "'db MessageStore \<Rightarrow> Clock \<Rightarrow> 'db Node" where
  "initial_node s clock =
     \<lparr>n_store = s, n_next_sequence = 1, n_peers = [], n_clock = clock, n_events = [], n_pending = [],
      n_handles = 0, n_announce_failed = False, n_datagrams = [], n_calls = []\<rparr>"

definition open_service :: "('db, 'j) Env \<Rightarrow> Config \<Rightarrow> 'db Node \<Rightarrow> 'db Node result" where
  "open_service W C n =
     (case on_store (next_sequence (sql W) (node_id (cfg_identity C))) n of
        (Inl e, _) \<Rightarrow> Inl e
      | (Inr k, n') \<Rightarrow> Inr (n'\<lparr>n_next_sequence := k\<rparr>))"

definition start_application ::
  "('db, 'j) Env \<Rightarrow> Options \<Rightarrow> app_setup \<Rightarrow> Clock \<Rightarrow> (Config \<times> 'db Node) result" where
  "start_application W s d clock =
     (if \<not> as_event_base d then Inl (RuntimeError ''Failed to create libevent event base'')
      else
        result_bind (open_store (sql W) (opt_database_path s) max_database_bytes) (\<lambda>store.
        let C = config_of s (interface_ipv4_address (as_interfaces d) (opt_discovery_interface s)) in
        case open_discovery W C (as_discovery d) (initial_node store clock) of
          ((Inl e, _), _) \<Rightarrow> Inl e
        | ((Inr _, _), n1) \<Rightarrow>
            result_bind (open_sync d) (\<lambda>_.
            result_bind (open_service W C n1) (\<lambda>n2.
            result_bind (open_http C d) (\<lambda>_. Inr (C, n2))))))"

section \<open>The event loop\<close>

datatype event =
    HttpArrived HttpRequest
  | DatagramsReady "recv list"
  | AnnounceTimer
  | SyncTimer
  | ResponseArrived nat response
  | ConnectionClosed conn
  | Elapse nat

definition response_callback :: "('db, 'j) Env \<Rightarrow> Config \<Rightarrow> response \<Rightarrow> RequestContext \<Rightarrow> 'db Node \<Rightarrow> 'db Node" where
  "response_callback W C resp ctx n =
     (case ctx_callback ctx of
        ReplicationResponse \<Rightarrow> replication_response ctx n
      | SummaryResponse \<Rightarrow> summary_response_callback W C resp ctx n
      | BatchResponse \<Rightarrow> send_response_callback ctx n)"

definition remove_nth :: "nat \<Rightarrow> 'a list \<Rightarrow> 'a list" where
  "remove_nth i xs = take i xs @ drop (Suc i) xs"

fun app_step :: "('db, 'j) Env \<Rightarrow> Config \<Rightarrow> event \<Rightarrow> 'db Node \<Rightarrow> 'db Node" where
  "app_step W C (HttpArrived q) n = handle_request W C q n"
| "app_step W C (DatagramsReady rs) n = receive_callback W C rs n"
| "app_step W C AnnounceTimer n = announce_callback W C n"
| "app_step W C SyncTimer n = sync_timer_callback W C n"
| "app_step W C (ResponseArrived i resp) n =
     (if i < length (n_pending n)
      then response_callback W C resp (n_pending n ! i) (n\<lparr>n_pending := remove_nth i (n_pending n)\<rparr>)
      else n)"
| "app_step W C (ConnectionClosed c) n =
     (case handle_close c (n_events n) of (s, cs) \<Rightarrow> emit cs (n\<lparr>n_events := s\<rparr>))"
| "app_step W C (Elapse d) n = n\<lparr>n_clock := elapse d (n_clock n)\<rparr>"

inductive app_reach :: "('db, 'j) Env \<Rightarrow> Config \<Rightarrow> 'db Node \<Rightarrow> nat \<Rightarrow> 'db Node \<Rightarrow> bool"
  for W C n0 where
  initial: "app_reach W C n0 0 n0"
| step: "app_reach W C n0 k n \<Longrightarrow> app_reach W C n0 (Suc k) (app_step W C e n)"

section \<open>The invariant of the node\<close>

text \<open>The two libraries a node rests on, with their contracts.\<close>

locale node_services = json: json_library "js W" + engine: sqlite_engine "sql W" view
  for W :: "('db, 'j) Env" and view :: "'db \<Rightarrow> db_view"

definition node_ok :: "('db \<Rightarrow> db_view) \<Rightarrow> Config \<Rightarrow> 'db Node \<Rightarrow> bool" where
  "node_ok view C n \<longleftrightarrow> store_weak view (n_store n) \<and> peers_ok (node_id (cfg_identity C)) (n_peers n)"

definition node_at :: "('db \<Rightarrow> db_view) \<Rightarrow> Config \<Rightarrow> u64 set \<Rightarrow> 'db Node \<Rightarrow> bool" where
  "node_at view C ks n \<longleftrightarrow> node_ok view C n \<and> n_next_sequence n \<in> ks"

definition leads :: "('s \<Rightarrow> bool) \<Rightarrow> ('s, 'a) action \<Rightarrow> ('s \<Rightarrow> bool) \<Rightarrow> bool" where
  "leads P a Q \<longleftrightarrow> (\<forall>s r s'. a s = (r, s') \<longrightarrow> P s \<longrightarrow> Q s')"

lemma leads_andthen:
  assumes "leads P a R" and "\<And>s. R s \<Longrightarrow> Q s" and "\<And>v. leads R (f v) Q"
  shows "leads P (andthen a f) Q"
  using assms unfolding leads_def andthen_def
  by (auto split: prod.splits sum.splits)

lemma keeps_leads: "keeps P a \<longleftrightarrow> leads P a P"
  by (simp add: keeps_def leads_def)

lemma keeps_reading: "reading a \<Longrightarrow> keeps (node_at view C ks) a"
proof (rule keepsI)
  fix n r n'
  assume "reading a" "a n = (r, n')" "node_at view C ks n"
  moreover have "core n' = core n" using calculation(1,2) unfolding reading_def by (metis snd_conv)
  ultimately show "node_at view C ks n'"
    using core_fields(1-3) [of n' n] by (simp add: node_at_def node_ok_def)
qed

lemmas keeps_basic = keeps_reading [OF reading_basic(1)] keeps_reading [OF reading_basic(2)]
  keeps_reading [OF reading_basic(3)]

lemma store_weak_cong:
  "view (store_db s') = view (store_db s) \<Longrightarrow> store_messages s' = store_messages s \<Longrightarrow> store_weak view s \<Longrightarrow>
   store_weak view s'"
  by (simp add: store_weak_def tables_of_def)

lemma keeps_on_store:
  assumes "\<And>s r s'. a s = (r, s') \<Longrightarrow> store_weak view s \<Longrightarrow> store_weak view s'"
  shows "keeps (node_at view C ks) (on_store a)"
proof (rule keepsI)
  fix n r n'
  assume x: "on_store a n = (r, n')" and ok: "node_at view C ks n"
  obtain q s where "a (n_store n) = (q, s)" by fastforce
  moreover have "store_weak view (n_store n)" using ok by (simp add: node_at_def node_ok_def)
  ultimately show "node_at view C ks n'"
    using x ok assms [of "n_store n" q s] by (auto simp: on_store_eq node_at_def node_ok_def)
qed

lemma keeps_publish: "keeps (node_at view C ks) (publish_message W m)"
  by (rule keepsI) (auto simp: publish_message_eq node_at_def node_ok_def split: sum.splits)

lemma keeps_replicate: "keeps (node_at view C ks) (replicate_to_peers W D m)"
  by (rule keepsI) (auto simp: replicate_to_peers_eq node_at_def node_ok_def split: sum.splits)

lemma reading_read_json: "reading (read_json_object W q limit complete err)"
  unfolding read_json_object_def send_unsupported_media_type_def bad_request_def
  by (simp split del: if_split add: reading_andthen reading_basic split: if_split)

context node_services
begin

lemma keeps_add: "storable m \<Longrightarrow> keeps (node_at view C ks) (on_store (add (sql W) m))"
  by (rule keeps_on_store) (auto dest: engine.add_weak)

lemma keeps_contains: "keeps (node_at view C ks) (on_store (contains (sql W) k))"
  by (rule keeps_on_store, rule store_weak_cong) (rule engine.contains_keeps, assumption)+

lemma keeps_summary: "keeps (node_at view C ks) (on_store (sequence_summary (sql W)))"
  by (rule keeps_on_store, rule store_weak_cong) (rule engine.summary_keeps, assumption)+

lemma parsed_storable: "parse_message (js W) v = Some m \<Longrightarrow> storable m"
  using parse_message_accepted [OF json.json_library_axioms] by (auto simp: accepted_message_def storable_def)

lemma keeps_ingest:
  assumes "storable m"
  shows "keeps (node_at view C ks) (ingest_replica W m)" "keeps (node_at view C ks) (ingest_sync W m)"
  unfolding ingest_replica_def ingest_sync_def
  using assms by (auto intro!: keeps_andthen keeps_contains keeps_add keeps_publish keeps_basic)

lemma keeps_sync_loop: "keeps (node_at view C ks) (sync_loop W q items k)"
proof (induction items arbitrary: k)
  case Nil
  then show ?case unfolding sync_loop.simps by (intro keeps_basic)
next
  case (Cons item items)
  then show ?case
    using parsed_storable [of item] unfolding sync_loop.simps bad_request_def
    by (auto intro!: keeps_andthen keeps_ingest keeps_basic split: option.splits)
qed

lemma keeps_post_handlers:
  "keeps (node_at view C ks) (replicate_message W D q)"
  "keeps (node_at view C ks) (sync_summary W D q)"
  "keeps (node_at view C ks) (sync_messages W D q)"
  unfolding replicate_message_def sync_summary_def sync_messages_def bad_request_def service_summary_def
  using parsed_storable
  by (auto intro!: keeps_andthen keeps_reading [OF reading_read_json] keeps_basic keeps_ingest keeps_summary keeps_sync_loop
      split: option.splits)

lemma create_local_leads:
  assumes "1 \<le> unat x"
  shows "leads (node_at view C {x}) (create_local W D t) (node_at view C {x + 1})"
  unfolding leads_def
proof (intro allI impI)
  fix n :: "'db Node" and r n'
  let ?m = "local_message D (n_next_sequence n) (current_time_ms (n_clock n)) t"
  let ?n = "n\<lparr>n_next_sequence := n_next_sequence n + 1\<rparr>"
  assume c: "create_local W D t n = (r, n')" and ok: "node_at view C {x} n"
  have st: "storable ?m" using assms ok by (simp add: storable_def node_at_def)
  have "keeps (node_at view C {x + 1}) (andthen (on_store (add (sql W) ?m)) (\<lambda>_. andthen (publish_message W ?m) (\<lambda>_.
      andthen (replicate_to_peers W D ?m) (\<lambda>_. ret ?m))))"
    using st by (intro keeps_andthen keeps_add keeps_publish keeps_replicate keeps_basic)
  moreover have "node_at view C {x + 1} ?n" using ok by (simp add: node_at_def node_ok_def)
  ultimately show "node_at view C {x + 1} n'"
    using c keepsD by (fastforce simp: create_local_def Let_def)
qed

end

lemma leads_keeps: "keeps (node_at view C ks) a \<Longrightarrow> (\<And>n. node_at view C ks n \<Longrightarrow> Q n) \<Longrightarrow> leads (node_at view C ks) a Q"
  by (auto simp: keeps_def leads_def)

lemma node_at_mono: "node_at view C ks n \<Longrightarrow> ks \<subseteq> ls \<Longrightarrow> node_at view C ls n"
  by (auto simp: node_at_def)

context node_services
begin

lemma create_message_leads:
  assumes "1 \<le> unat x"
  shows "leads (node_at view C {x}) (create_message W D q) (node_at view C {x, x + 1})"
  unfolding create_message_def
proof (rule leads_andthen)
  show "leads (node_at view C {x}) (read_json_object W q max_request_bytes False (error_body ''invalid_json'')) (node_at view C {x})"
    using keeps_reading [OF reading_read_json] by (simp add: keeps_leads)
next
  fix parsed
  have basic: "leads (node_at view C {x}) a (node_at view C {x, x + 1})" if "reading a" for a :: "('db Node, unit) action"
    using that by (intro leads_keeps keeps_reading) (auto intro: node_at_mono)
  have post: "leads (node_at view C {x}) (andthen (create_local W D t) (\<lambda>m. andthen (lift_result (created_json (js W) m))
      (respond W q HTTP_OK ''OK''))) (node_at view C {x, x + 1})" for t
    by (rule leads_andthen [OF create_local_leads [OF assms]])
       (auto intro!: leads_keeps keeps_andthen keeps_basic intro: node_at_mono)
  show "leads (node_at view C {x}) (case parsed of None \<Rightarrow> ret ()
      | Some object \<Rightarrow> (case check_body (js W) object of
            BodyError status reason text \<Rightarrow> respond W q status reason text
          | BodyText text \<Rightarrow> andthen (create_local W D text) (\<lambda>message.
              andthen (lift_result (created_json (js W) message)) (respond W q HTTP_OK ''OK''))))
      (node_at view C {x, x + 1})"
    using basic [OF reading_basic(1)] basic [OF reading_basic(3)] post by (auto split: option.splits body_check.splits)
qed (auto intro: node_at_mono)

lemma routes_lead:
  assumes "1 \<le> unat x" and "(m, p, h) \<in> set routes"
  shows "leads (node_at view C {x}) (h W D q) (node_at view C {x, x + 1})"
proof (cases "h = create_message")
  case True
  then show ?thesis using create_message_leads [OF assms(1)] by simp
next
  case False
  have "keeps (node_at view C {x}) (h W D q)"
  proof (cases "m = EVHTTP_REQ_GET")
    case True
    then show ?thesis using keeps_reading [OF reading_get_routes] assms(2) by blast
  next
    case post: False
    then have "h = replicate_message \<or> h = sync_summary \<or> h = sync_messages"
      using False assms(2) by (auto simp: routes_def)
    then show ?thesis using keeps_post_handlers by auto
  qed
  then show ?thesis by (rule leads_keeps) (auto intro: node_at_mono)
qed

lemma loop_leads:
  assumes "1 \<le> unat x" and "\<And>m p h. (m, p, h) \<in> set rs \<Longrightarrow> leads (node_at view C {x}) (h W D q) (node_at view C {x, x + 1})"
  shows "leads (node_at view C {x}) (route_loop rs path found W D q) (node_at view C {x, x + 1})"
  using assms(2)
proof (induction rs arbitrary: found)
  case Nil
  have "leads (node_at view C {x}) (respond W q st reason t) (node_at view C {x, x + 1})" for st reason t
    by (intro leads_keeps keeps_basic) (auto intro: node_at_mono)
  then show ?case by simp
next
  case (Cons r rs)
  obtain m p h where r: "r = (m, p, h)" by (metis prod_cases3)
  have "leads (node_at view C {x}) (h W D q) (node_at view C {x, x + 1})"
    using Cons.prems r by (metis list.set_intros(1))
  moreover have "leads (node_at view C {x}) (route_loop rs path b W D q) (node_at view C {x, x + 1})" for b
    using Cons by (metis list.set_intros(2))
  ultimately show ?case by (simp add: r)
qed

lemma handle_request_leads:
  assumes "1 \<le> unat (n_next_sequence n)" and "node_ok view C n"
  shows "node_at view C {n_next_sequence n, n_next_sequence n + 1} (handle_request W D q n)"
proof -
  let ?x = "n_next_sequence n"
  obtain r n' where p: "process_request W D q n = (r, n')" by fastforce
  have "leads (node_at view C {?x}) (route_loop routes path False W D q) (node_at view C {?x, ?x + 1})" for path
    by (rule loop_leads [OF assms(1)]) (rule routes_lead [OF assms(1)])
  moreover have "leads (node_at view C {?x}) (respond W q st reason t) (node_at view C {?x, ?x + 1})" for st reason t
    by (intro leads_keeps keeps_basic) (auto intro: node_at_mono)
  ultimately have "leads (node_at view C {?x}) (process_request W D q) (node_at view C {?x, ?x + 1})"
    by (simp add: process_request_def bad_request_def Let_def)
  then have "node_at view C {?x, ?x + 1} n'"
    using p assms(2) unfolding leads_def by (metis node_at_def singletonI)
  then show ?thesis
    using p by (auto simp: handle_request_def node_at_def node_ok_def split: sum.splits exn.splits)
qed

lemma keeps_synchronize: "keeps (node_at view C ks) (synchronize W D)"
  unfolding synchronize_def
proof (intro keeps_andthen keeps_basic keeps_summary)
  show "keeps (node_at view C ks) (\<lambda>n. case post_all (summary_post (ev W) (cfg_local_address D) payload)
      (active_peers (current_time_ms (n_clock n)) (n_peers n)) (n_handles n) of
     (cs, ctxs, h) \<Rightarrow> (Inr (), emit cs (n\<lparr>n_pending := n_pending n @ ctxs, n_handles := h\<rparr>)))" for payload
    by (rule keepsI) (auto simp: node_at_def node_ok_def split: prod.splits)
qed

end



lemma keeps_send_batch: "keeps (node_at view C ks) (send_batch W D addr port t)"
  by (rule keepsI) (auto simp: send_batch_def node_at_def node_ok_def split: prod.splits)

lemma keeps_offer: "keeps (node_at view C ks) (offer_missing W D ctx origins b a)"
proof -
  have "keeps (node_at view C ks) (andthen (lift_result (missing_loop (js W) origins ms 0)) (\<lambda>items.
      if items = [] then ret () else andthen (lift_result (serialize_json (js W) (batch_json (js W) items b a)))
        (\<lambda>payload. send_batch W D (ctx_address ctx) (ctx_port ctx) payload)))" for ms
    by (rule keeps_andthen [OF keeps_basic(2)]) (simp add: keeps_andthen keeps_basic keeps_send_batch del: lift_result_simp ret_simp)
  then show ?thesis unfolding offer_missing_def by (simp add: keeps_def)
qed

lemma keeps_send_missing: "keeps (node_at view C ks) (send_missing W D ctx t)"
  unfolding send_missing_def
  by (auto intro!: keeps_andthen keeps_basic keeps_throw keeps_offer split: option.splits)

lemma summary_response_at:
  "node_at view C ks n \<Longrightarrow> node_at view C ks (summary_response_callback W D resp ctx n)"
proof -
  assume ok: "node_at view C ks n"
  have "keeps (node_at view C ks) (handle_summary_response W D q ctx)" for q
    unfolding handle_summary_response_def by (intro keeps_andthen keeps_basic keeps_send_missing)
  then have "node_at view C ks (snd (handle_summary_response W D q ctx n))" for q
    using ok keepsD by (metis prod.collapse)
  then show ?thesis
    using ok by (auto simp: summary_response_callback_def Let_def node_at_def node_ok_def split: option.splits)
qed

lemma node_at_self: "node_ok view C n \<Longrightarrow> node_at view C {n_next_sequence n, n_next_sequence n + 1} n"
  by (simp add: node_at_def)

lemma node_at_emit [simp]: "node_at view C ks (emit cs n) = node_at view C ks n"
  by (simp add: node_at_def node_ok_def)



text \<open>Announcing changes nothing but the datagrams sent and the flag.\<close>

definition undisturbed :: "'db Node \<Rightarrow> 'db Node \<Rightarrow> bool" where
  "undisturbed n0 n \<longleftrightarrow> n\<lparr>n_datagrams := [], n_announce_failed := False\<rparr> = n0\<lparr>n_datagrams := [], n_announce_failed := False\<rparr>"

lemma keeps_udp_send: "keeps (undisturbed n0) (udp_send W C i t)"
  by (simp add: keeps_def udp_send_def undisturbed_def)

lemma send_announce_undisturbed: "undisturbed n (snd (send_announce W C n))"
proof -
  have k: "keeps (undisturbed n) (andthen (lift_result x) (\<lambda>root. andthen (lift_result (serialize_json (js W) root)) (\<lambda>payload.
     if \<not> inet_pton_ok (os W) (c_str (cfg_discovery_address C)) then throw e1
     else andthen (lift_result (choose_interface (os W) (cfg_discovery_interface C))) (\<lambda>interface.
       andthen (udp_send W C interface payload) (\<lambda>sent.
         if sent < 0 then throw e2 else if nat sent \<noteq> length payload then throw e3 else ret ())))))" for x e1 e2 e3
    by (intro keeps_andthen keeps_lift) (simp add: keeps_andthen keeps_lift keeps_udp_send keeps_throw keeps_def [of _ "ret ()"])
  have u: "undisturbed n n" by (simp add: undisturbed_def)
  show ?thesis unfolding send_announce_def by (rule keepsD [OF k surjective_pairing u])
qed

lemma announce_undisturbed: "undisturbed n (announce W C n)"
  using send_announce_undisturbed [of n W C]
  by (auto simp: announce_def undisturbed_def split: prod.splits sum.splits)

lemma undisturbed_fields:
  assumes "undisturbed n0 n"
  shows "n_store n = n_store n0" "n_next_sequence n = n_next_sequence n0" "n_peers n = n_peers n0"
    "n_calls n = n_calls n0" "n_pending n = n_pending n0" "n_clock n = n_clock n0" "n_handles n = n_handles n0"
proof -
  have e: "n\<lparr>n_datagrams := [], n_announce_failed := False\<rparr> = n0\<lparr>n_datagrams := [], n_announce_failed := False\<rparr>"
    using assms by (simp add: undisturbed_def)
  show "n_store n = n_store n0" using arg_cong [OF e, of n_store] by simp
  show "n_next_sequence n = n_next_sequence n0" using arg_cong [OF e, of n_next_sequence] by simp
  show "n_peers n = n_peers n0" using arg_cong [OF e, of n_peers] by simp
  show "n_calls n = n_calls n0" using arg_cong [OF e, of n_calls] by simp
  show "n_pending n = n_pending n0" using arg_cong [OF e, of n_pending] by simp
  show "n_clock n = n_clock n0" using arg_cong [OF e, of n_clock] by simp
  show "n_handles n = n_handles n0" using arg_cong [OF e, of n_handles] by simp
qed

lemmas announce_fields = undisturbed_fields [OF announce_undisturbed]



context node_services
begin

lemma step_at:
  assumes "node_ok view C n" and "1 \<le> unat (n_next_sequence n)"
  shows "node_at view C {n_next_sequence n, n_next_sequence n + 1} (app_step W C e n)"
proof -
  let ?at = "node_at view C {n_next_sequence n, n_next_sequence n + 1}"
  have at: "?at n" using assms(1) by (rule node_at_self)
  show ?thesis
  proof (cases e)
    case (HttpArrived q)
    then show ?thesis using handle_request_leads [OF assms(2,1)] by simp
  next
    case (DatagramsReady rs)
    then show ?thesis
      using assms(1) by (simp add: heard_fields [OF receive_heard] receive_peers_ok node_at_def node_ok_def)
  next
    case AnnounceTimer
    then show ?thesis using at by (simp add: announce_callback_def announce_fields node_at_def node_ok_def)
  next
    case SyncTimer
    then show ?thesis
      using keepsD [OF keeps_synchronize _ at] by (simp add: sync_timer_callback_def) (metis prod.collapse)
  next
    case (ResponseArrived i resp)
    have "?at (n\<lparr>n_pending := ps\<rparr>)" for ps using at by (simp add: node_at_def node_ok_def)
    then have "?at (response_callback W C resp ctx (n\<lparr>n_pending := ps\<rparr>))" for ctx ps
      by (cases "ctx_callback ctx")
         (simp_all add: response_callback_def replication_response_def send_response_callback_def summary_response_at)
    then show ?thesis using ResponseArrived at by simp
  next
    case (ConnectionClosed c)
    then show ?thesis using at by (auto simp: node_at_def node_ok_def split: prod.splits)
  next
    case (Elapse d)
    then show ?thesis using at by (simp add: node_at_def node_ok_def)
  qed
qed

lemma reach_ok:
  assumes "app_reach W C n0 k n" and "node_ok view C n0" and "1 \<le> unat (n_next_sequence n0)"
    and "unat (n_next_sequence n0) + k < 2 ^ 64"
  shows "node_ok view C n \<and> unat (n_next_sequence n0) \<le> unat (n_next_sequence n) \<and>
    unat (n_next_sequence n) \<le> unat (n_next_sequence n0) + k"
  using assms
proof (induction rule: app_reach.induct)
  case initial
  then show ?case by simp
next
  case (step k n e)
  let ?x = "n_next_sequence n"
  have ih: "node_ok view C n" "unat (n_next_sequence n0) \<le> unat ?x" "unat ?x \<le> unat (n_next_sequence n0) + k"
    using step.IH step.prems by simp_all
  have "unat ?x + 1 < 2 ^ 64" using ih(3) step.prems(3) by simp
  then have "unat (?x + 1) = unat ?x + 1"
    by (simp add: unat_add_lem [THEN iffD1])
  moreover have "node_at view C {?x, ?x + 1} (app_step W C e n)"
    using ih step.prems(2) by (intro step_at) simp_all
  ultimately show ?case using ih by (auto simp: node_at_def)
qed

end

interpretation sample_services: node_services sample_env ref_view
proof (rule node_services.intro)
  show "json_library (js sample_env)" using sample_jsonc_library by simp
  show "sqlite_engine (sql sample_env) ref_view" using sample_engine_ok by simp
qed

end
