(* ===== verification/Les_Run.thy ===== *)
theory Les_Run
  imports Les_App
begin

text \<open>
  Runs of the daemon: what holds of every reachable node, from the command line on.  The first
  part follows the outgoing connections through a run: each is opened at most once, and released
  exactly once or owned by exactly one pending response.
\<close>

section \<open>Outgoing connections\<close>

text \<open>
  \<open>balanced held n\<close>: every connection opened so far was released, or belongs to a pending
  response, or to a response that is being handled (\<open>held\<close>).
\<close>

definition owners :: "conn \<Rightarrow> RequestContext list \<Rightarrow> nat" where
  "owners c ctxs = occurs (\<lambda>x. ctx_connection x = c) ctxs"

definition balanced :: "RequestContext list \<Rightarrow> 'db Node \<Rightarrow> bool" where
  "balanced held n \<longleftrightarrow>
     (\<forall>c. occurs (opens c) (n_calls n) = occurs (closes c) (n_calls n) + owners c (n_pending n @ held) \<and>
        occurs (opens c) (n_calls n) \<le> (if c < n_handles n then 1 else 0))"

definition quiet :: "evcall list \<Rightarrow> bool" where
  "quiet cs \<longleftrightarrow> (\<forall>c. occurs (opens c) cs = 0 \<and> occurs (closes c) cs = 0)"

lemma owners_simps [simp]:
  "owners c [] = 0" "owners c (x # xs) = (if ctx_connection x = c then 1 else 0) + owners c xs"
  "owners c (xs @ ys) = owners c xs + owners c ys"
  by (simp_all add: owners_def)

lemma owners_remove_nth: "i < length xs \<Longrightarrow> owners c xs = owners c (remove_nth i xs) + owners c [xs ! i]"
proof -
  assume "i < length xs"
  then have "xs = take i xs @ xs ! i # drop (Suc i) xs" by (simp add: id_take_nth_drop)
  then have "owners c xs = owners c (take i xs @ xs ! i # drop (Suc i) xs)" by (rule arg_cong)
  then show ?thesis by (simp add: remove_nth_def)
qed

lemma balancedD:
  assumes "balanced held n"
  shows "occurs (opens c) (n_calls n) = occurs (closes c) (n_calls n) + owners c (n_pending n @ held)"
    and "occurs (opens c) (n_calls n) \<le> (if c < n_handles n then 1 else 0)"
  using assms unfolding balanced_def by blast+

lemma balanced_emit: "quiet cs \<Longrightarrow> balanced held (emit cs n) = balanced held n"
  by (simp add: balanced_def quiet_def)

lemma balanced_cong:
  assumes "n_calls n' = n_calls n" and "n_pending n' = n_pending n" and "n_handles n' = n_handles n" and "balanced held n"
  shows "balanced held n'"
  using balancedD [OF assms(4)] assms(1-3) by (simp add: balanced_def)

lemma balanced_fields [simp]:
  "balanced held (n\<lparr>n_store := s\<rparr>) = balanced held n" "balanced held (n\<lparr>n_next_sequence := k\<rparr>) = balanced held n"
  "balanced held (n\<lparr>n_events := es\<rparr>) = balanced held n" "balanced held (n\<lparr>n_clock := cl\<rparr>) = balanced held n"
  by (simp_all add: balanced_def)

lemma quiet_send_json: "quiet (send_json L r st reason b)"
  by (simp add: quiet_def send_json_def send_response_def html_type_def)

lemma quiet_send_response: "quiet (send_response L r st reason ct b)"
  by (simp add: quiet_def send_response_def)

lemma quiet_publish: "quiet (publish nm d s)"
  by (induction s) (auto simp: quiet_def)

lemma quiet_subscribe: "subscribe r c s = (s', cs) \<Longrightarrow> quiet cs"
  by (auto simp: quiet_def subscribe_def)

lemma quiet_handle_close: "handle_close c s = (s', cs) \<Longrightarrow> quiet cs"
  by (induction c s arbitrary: s' cs rule: handle_close.induct)
     (auto simp: quiet_def split: if_splits prod.splits)

text \<open>One request to a peer: the connection gets the next handle.\<close>

lemma post_request_opens:
  "post_request L la cb hs path pl addr port h = (cs, ctx) \<Longrightarrow> occurs (opens c) cs \<le> (if c = h then 1 else 0)"
  by (cases "outcome L h") (auto simp: post_request_def Let_def)

lemma post_all_opens:
  assumes "\<And>p h cs ctx. post p h = (cs, ctx) \<Longrightarrow> occurs (opens c) cs \<le> (if c = h then 1 else 0)"
  shows "post_all post ps h = (cs, ctxs, h') \<Longrightarrow>
    occurs (opens c) cs \<le> (if h \<le> c \<and> c < h + length ps then 1 else 0)"
proof (induction ps arbitrary: h cs ctxs h')
  case Nil
  then show ?case by simp
next
  case (Cons p ps)
  obtain cs1 ctx where a: "post p h = (cs1, ctx)" by fastforce
  obtain cs2 ctxs2 h2 where b: "post_all post ps (Suc h) = (cs2, ctxs2, h2)" by (metis prod_cases3)
  show ?case
    using Cons.IH [OF b] assms [OF a] Cons.prems a b by (auto split: if_splits)
qed

lemma balanced_posts:
  assumes "balanced held n" and "\<And>c. occurs (opens c) cs = occurs (closes c) cs + owners c ctxs"
    and "\<And>c. occurs (opens c) cs \<le> (if n_handles n \<le> c \<and> c < h then 1 else 0)" and "n_handles n \<le> h"
  shows "balanced held (emit cs (n\<lparr>n_pending := n_pending n @ ctxs, n_handles := h\<rparr>))"
proof -
  note old = balancedD [OF assms(1)]
  have "occurs (opens c) (n_calls n) + occurs (opens c) cs \<le> (if c < h then 1 else 0)" for c
    using old(2) [of c] assms(3) [of c] assms(4) by (cases "c < n_handles n") simp_all
  then show ?thesis
    using old(1) assms(2) by (simp add: balanced_def)
qed

lemma balanced_post:
  assumes "balanced held n" and "post_request L la cb hs path pl addr port (n_handles n) = (cs, ctx)"
  shows "balanced held (emit cs (n\<lparr>n_handles := Suc (n_handles n),
    n_pending := (case ctx of None \<Rightarrow> n_pending n | Some c \<Rightarrow> n_pending n @ [c])\<rparr>))"
proof -
  let ?ctxs = "case ctx of None \<Rightarrow> [] | Some c \<Rightarrow> [c]"
  have e: "n\<lparr>n_handles := Suc (n_handles n), n_pending := (case ctx of None \<Rightarrow> n_pending n | Some c \<Rightarrow> n_pending n @ [c])\<rparr> =
      n\<lparr>n_pending := n_pending n @ ?ctxs, n_handles := Suc (n_handles n)\<rparr>"
    by (simp split: option.splits)
  show ?thesis
    unfolding e using assms(1)
  proof (rule balanced_posts)
    show "occurs (opens c) cs = occurs (closes c) cs + owners c ?ctxs" for c
      using post_request_balance [OF assms(2), of c] by (simp split: option.splits)
    show "occurs (opens c) cs \<le> (if n_handles n \<le> c \<and> c < Suc (n_handles n) then 1 else 0)" for c
      using post_request_opens [OF assms(2), of c] by (auto split: if_splits)
  qed simp
qed

lemma balanced_post_all:
  assumes "balanced held n" and "post_all (\<lambda>p. post_request L la cb hs path pl (address p) (http_port p)) ps (n_handles n) = (cs, ctxs, h)"
  shows "balanced held (emit cs (n\<lparr>n_pending := n_pending n @ ctxs, n_handles := h\<rparr>))"
  using assms(1)
proof (rule balanced_posts)
  have h: "h = n_handles n + length ps" using assms(2) by (rule post_all_count)
  then show "n_handles n \<le> h" by simp
  show "occurs (opens c) cs = occurs (closes c) cs + owners c ctxs" for c
    unfolding owners_def by (rule post_all_balance [OF post_request_balance assms(2)])
  show "occurs (opens c) cs \<le> (if n_handles n \<le> c \<and> c < h then 1 else 0)" for c
    unfolding h by (rule post_all_opens [OF post_request_opens assms(2)])
qed

lemma balanced_release:
  assumes "balanced (ctx # held) n"
  shows "balanced held (emit [ConnectionFree (ctx_connection ctx)] n)"
  unfolding balanced_def
proof (intro allI conjI)
  fix c
  show "occurs (opens c) (n_calls (emit [ConnectionFree (ctx_connection ctx)] n)) =
      occurs (closes c) (n_calls (emit [ConnectionFree (ctx_connection ctx)] n)) +
      owners c (n_pending (emit [ConnectionFree (ctx_connection ctx)] n) @ held)"
    using balancedD(1) [OF assms, of c] by simp
  show "occurs (opens c) (n_calls (emit [ConnectionFree (ctx_connection ctx)] n)) \<le>
      (if c < n_handles (emit [ConnectionFree (ctx_connection ctx)] n) then 1 else 0)"
    using balancedD(2) [OF assms, of c] by simp
qed

text \<open>Every action of the handlers keeps the connections balanced.\<close>

lemma balanced_respond [keeps_rules]: "keeps (balanced held) (respond W q st reason t)"
  by (rule keepsI) (auto simp: respond_def balanced_emit quiet_send_json)

lemma balanced_on_store [keeps_rules]: "keeps (balanced held) (on_store a)"
  by (rule keepsI) (auto simp: on_store_eq)

lemma balanced_publish [keeps_rules]: "keeps (balanced held) (publish_message W m)"
  by (rule keepsI) (auto simp: publish_message_eq balanced_emit quiet_publish split: sum.splits)

lemma balanced_broadcast: "balanced held n \<Longrightarrow> balanced held (broadcast W C t n)"
  using balanced_post_all [where cb = ReplicationResponse]
  by (auto simp: broadcast_def Let_def replication_post_def [abs_def] split: prod.splits)

lemma balanced_replicate [keeps_rules]: "keeps (balanced held) (replicate_to_peers W C m)"
  by (rule keepsI) (auto simp: replicate_to_peers_eq balanced_broadcast split: sum.splits)



lemma balanced_create_local [keeps_rules]: "keeps (balanced held) (create_local (W :: ('b, 'j) Env) C t)"
proof (rule keepsI)
  fix n :: "'b Node" and r n'
  let ?m = "local_message C (n_next_sequence n) (current_time_ms (n_clock n)) t"
  have k: "keeps (balanced held) (andthen (on_store (add (sql W) ?m)) (\<lambda>_. andthen (publish_message W ?m) (\<lambda>_.
      andthen (replicate_to_peers W C ?m) (\<lambda>_. ret ?m))))"
    by (intro keeps_rules)
  assume "create_local W C t n = (r, n')" and "balanced held n"
  then show "balanced held n'"
    using keepsD [OF k, of "n\<lparr>n_next_sequence := n_next_sequence n + 1\<rparr>" r n']
    by (simp add: create_local_def Let_def)
qed

lemma balanced_ingest [keeps_rules]:
  "keeps (balanced held) (ingest_replica W m)" "keeps (balanced held) (ingest_sync W m)"
  unfolding ingest_replica_def ingest_sync_def by (auto intro!: keeps_rules)

lemma balanced_read_json [keeps_rules]: "keeps (balanced held) (read_json_object W q limit complete err)"
  unfolding read_json_object_def send_unsupported_media_type_def bad_request_def by (auto intro!: keeps_rules)

lemma balanced_sync_loop [keeps_rules]: "keeps (balanced held) (sync_loop W q items k)"
proof (induction items arbitrary: k)
  case Nil
  then show ?case unfolding sync_loop.simps by (rule keeps_rules)
next
  case (Cons item items)
  then show ?case unfolding sync_loop.simps bad_request_def by (auto intro!: keeps_rules split: option.splits)
qed

lemma balanced_pages:
  "keeps (balanced held) (serve_asset W q f ct)" "keeps (balanced held) (open_event_stream W C q)"
proof -
  show "keeps (balanced held) (serve_asset W q f ct)"
    by (rule keepsI) (auto simp: serve_asset_def andthen_def send_web_asset_def balanced_emit quiet_send_response result_bind_def
        split: sum.splits prod.splits)
  show "keeps (balanced held) (open_event_stream W C q)"
    by (rule keepsI) (auto simp: open_event_stream_def balanced_emit [OF quiet_subscribe] split: prod.splits)
qed

lemma balanced_handlers:
  "keeps (balanced held) (create_message W C q)" "keeps (balanced held) (replicate_message W C q)"
  "keeps (balanced held) (sync_summary W C q)" "keeps (balanced held) (sync_messages W C q)"
  unfolding create_message_def replicate_message_def sync_summary_def sync_messages_def bad_request_def service_summary_def
  by (auto intro!: keeps_rules split: option.splits body_check.splits)

lemma balanced_queries:
  "keeps (balanced held) (get_status W C q)" "keeps (balanced held) (get_messages W C q)"
  "keeps (balanced held) (get_peers W C q)" "keeps (balanced held) (get_healthz W C q)"
  unfolding get_status_def get_messages_def get_peers_def get_healthz_def
  by (intro keeps_rules)+

lemma balanced_routes: "(cmd, p, h) \<in> set routes \<Longrightarrow> keeps (balanced held) (h W C q)"
  by (auto simp: routes_def balanced_handlers balanced_queries balanced_pages serve_index_def serve_stylesheet_def
      serve_script_def)

lemma keeps_route_loop:
  assumes "\<And>st reason t. keeps P (respond W q st reason t)"
  shows "(\<And>cmd p h. (cmd, p, h) \<in> set rs \<Longrightarrow> keeps P (h W C q)) \<Longrightarrow> keeps P (route_loop rs path found W C q)"
proof (induction rs arbitrary: found)
  case Nil
  then show ?case using assms by simp
next
  case (Cons r rs)
  obtain cmd p h where r: "r = (cmd, p, h)" by (metis prod_cases3)
  have "keeps P (h W C q)" using Cons.prems r by (metis list.set_intros(1))
  moreover have "keeps P (route_loop rs path b W C q)" for b using Cons by (metis list.set_intros(2))
  ultimately show ?case by (simp add: r)
qed

lemma balanced_request: "balanced held n \<Longrightarrow> balanced held (handle_request W C q n)"
proof -
  have "keeps (balanced held) (route_loop routes path False W C q)" for path
    by (rule keeps_route_loop [OF balanced_respond balanced_routes])
  then have "keeps (balanced held) (process_request W C q)"
    by (simp add: process_request_def bad_request_def Let_def balanced_respond)
  moreover assume "balanced held n"
  ultimately have "balanced held (snd (process_request W C q n))" by (rule keepsD [OF _ surjective_pairing])
  then show ?thesis
    by (auto simp: handle_request_def balanced_emit quiet_send_json split: prod.splits sum.splits exn.splits)
qed

lemma balanced_synchronize: "keeps (balanced held) (synchronize W C)"
proof -
  have "keeps (balanced held) (\<lambda>n. case post_all (summary_post (ev W) (cfg_local_address C) payload)
      (active_peers (current_time_ms (n_clock n)) (n_peers n)) (n_handles n) of
     (cs, ctxs, h) \<Rightarrow> (Inr (), emit cs (n\<lparr>n_pending := n_pending n @ ctxs, n_handles := h\<rparr>)))" for payload
    using balanced_post_all [where cb = SummaryResponse]
    by (intro keepsI) (auto simp: summary_post_def [abs_def] split: prod.splits)
  then show ?thesis
    unfolding synchronize_def by (intro keeps_rules)
qed

lemma balanced_send_batch [keeps_rules]: "keeps (balanced held) (send_batch W C addr port t)"
  using balanced_post [where cb = BatchResponse] by (intro keepsI) (auto simp: send_batch_def split: prod.splits)

lemma balanced_offer [keeps_rules]: "keeps (balanced held) (offer_missing W C ctx origins b a)"
  unfolding offer_missing_def by (auto intro!: keeps_rules)

lemma balanced_summary_response:
  assumes "balanced (ctx # held) n"
  shows "balanced held (summary_response_callback W C resp ctx n)"
proof -
  have "keeps (balanced (ctx # held)) (handle_summary_response W C q ctx)" for q
    unfolding handle_summary_response_def send_missing_def
    by (auto intro!: keeps_rules split: option.splits)
  then have "balanced (ctx # held) (snd (handle_summary_response W C q ctx n))" for q
    using assms by (rule keepsD [OF _ surjective_pairing])
  then show ?thesis
    using assms balanced_release
    by (auto simp: summary_response_callback_def Let_def split: option.splits)
qed

lemma balanced_response:
  assumes "balanced held n" and "i < length (n_pending n)"
  shows "balanced held (response_callback W C resp (n_pending n ! i) (n\<lparr>n_pending := remove_nth i (n_pending n)\<rparr>))"
proof -
  have "balanced (n_pending n ! i # held) (n\<lparr>n_pending := remove_nth i (n_pending n)\<rparr>)"
    using balancedD [OF assms(1)] owners_remove_nth [OF assms(2)] by (simp add: balanced_def)
  then show ?thesis
    by (auto simp: response_callback_def replication_response_def send_response_callback_def balanced_release
        balanced_summary_response split: callback.splits)
qed

lemma balanced_step:
  assumes "balanced [] n"
  shows "balanced [] (app_step W C e n)"
proof (cases e)
  case (HttpArrived q)
  then show ?thesis using assms by (simp add: balanced_request)
next
  case (DatagramsReady rs)
  then show ?thesis
    using assms by (simp add: balanced_cong [OF _ _ _ assms] heard_fields [OF receive_heard])
next
  case AnnounceTimer
  then show ?thesis
    by (simp add: announce_callback_def balanced_cong [OF _ _ _ assms] announce_fields)
next
  case SyncTimer
  then show ?thesis
    using keepsD [OF balanced_synchronize surjective_pairing assms] by (simp add: sync_timer_callback_def)
next
  case (ResponseArrived i resp)
  then show ?thesis using assms by (simp add: balanced_response)
next
  case (ConnectionClosed c)
  then show ?thesis
    using assms by (auto simp: balanced_emit [OF quiet_handle_close] split: prod.splits)
next
  case (Elapse d)
  then show ?thesis using assms by simp
qed

lemma balanced_reach: "app_reach W C n0 k n \<Longrightarrow> balanced [] n0 \<Longrightarrow> balanced [] n"
  by (induction rule: app_reach.induct) (simp_all add: balanced_step)

section \<open>From the command line to the first callback\<close>

lemma start_applicationD:
  assumes "start_application W s d clock = Inr (C, n)"
  obtains store n1 res where "open_store (sql W) (opt_database_path s) max_database_bytes = Inr store"
    and "C = config_of s (interface_ipv4_address (as_interfaces d) (opt_discovery_interface s))"
    and "acquire W C (as_discovery d) = (None, res)" and "n1 = announce W C (initial_node store clock)"
    and "open_service W C n1 = Inr n"
  using assms
  by (auto simp: start_application_def open_discovery_def Let_def result_bind_def
      split: if_splits sum.splits prod.splits option.splits)

lemma announced_node:
  "n_store (announce W C (initial_node s clock)) = s" "n_peers (announce W C (initial_node s clock)) = []"
  "n_calls (announce W C (initial_node s clock)) = []" "n_pending (announce W C (initial_node s clock)) = []"
  "n_handles (announce W C (initial_node s clock)) = 0"
  by (simp_all add: announce_fields initial_node_def)

lemma open_serviceD:
  assumes "open_service W C n1 = Inr n"
  obtains k s where "next_sequence (sql W) (node_id (cfg_identity C)) (n_store n1) = (Inr k, s)"
    and "n = n1\<lparr>n_store := s, n_next_sequence := k\<rparr>"
  using assms by (cases "next_sequence (sql W) (node_id (cfg_identity C)) (n_store n1)")
    (auto simp: open_service_def on_store_eq split: sum.splits)

context node_services
begin

text \<open>
  A node that starts on a sound database file meets the invariant, and its counter is above every
  number of its own that the database holds.
\<close>

lemma start_ok:
  assumes st: "start_application W s d clock = Inr (C, n)"
    and os: "open_store (sql W) (opt_database_path s) max_database_bytes = Inr store"
    and db: "open_v2 (sql W) (c_str (opt_database_path s)) = (SQLITE_OK, Some db)"
    and ok: "tables_ok (fst (view db))"
    and rd: "fst (snd (run (sql W) sql_last_sequence [SText (opt_node_id s)] (store_db store))) = SQLITE_DONE"
  shows "node_ok view C n \<and> tables_of view (n_store n) = fst (view db) \<and> messages (n_store n) = t_messages (fst (view db)) \<and>
    int (unat (n_next_sequence n)) = (case map_of (t_sequences (fst (view db))) (opt_node_id s) of None \<Rightarrow> 1 | Some l \<Rightarrow> l + 1)"
proof -
  obtain n1 where C: "C = config_of s (interface_ipv4_address (as_interfaces d) (opt_discovery_interface s))"
    and n1: "n1 = announce W C (initial_node store clock)" and sv: "open_service W C n1 = Inr n"
    using start_applicationD [OF st] os by (metis sum.inject(2))
  have id: "node_id (cfg_identity C) = opt_node_id s" by (simp add: C config_of_def)
  obtain k s' where nx: "next_sequence (sql W) (opt_node_id s) store = (Inr k, s')"
    and n: "n = n1\<lparr>n_store := s', n_next_sequence := k\<rparr>"
    using sv by (elim open_serviceD) (simp add: n1 announced_node id)
  have inv: "store_inv view store" and t: "tables_of view store = fst (view db)"
    using engine.open_store_reads [OF os db ok] by auto
  have v: "view (store_db store) = (fst (view db), None)"
    using inv t by (simp add: store_inv_def tables_of_def prod_eq_iff)
  have keep: "view (store_db s') = view (store_db store)" "store_messages s' = store_messages store"
    using engine.next_sequence_keeps [OF nx] by auto
  then have inv': "store_inv view s'" "tables_of view s' = fst (view db)"
    using inv t by (simp_all add: store_inv_def tables_of_def)
  have val: "int (unat k) = (case map_of (t_sequences (fst (view db))) (opt_node_id s) of None \<Rightarrow> 1 | Some l \<Rightarrow> l + 1)"
    by (rule engine.next_sequence_value [OF nx v ok rd])
  show ?thesis
    using inv' val store_inv_weak [OF inv'(1)]
    by (simp add: n n1 announced_node node_ok_def messages_def store_inv_def tables_of_def)
qed

end

lemma started_config:
  "start_application W s d clock = Inr (C, n) \<Longrightarrow> node_id (cfg_identity C) = opt_node_id s \<and> C = config_of s (cfg_local_address C)"
  by (erule start_applicationD) (simp add: config_of_def)

lemma start_balanced: "start_application W s d clock = Inr (C, n) \<Longrightarrow> balanced [] n"
  by (erule start_applicationD, erule open_serviceD) (simp add: balanced_def announced_node)

context node_services
begin

lemma start_counter:
  assumes "start_application W s d clock = Inr (C, n)"
    and "open_store (sql W) (opt_database_path s) max_database_bytes = Inr store"
    and "open_v2 (sql W) (c_str (opt_database_path s)) = (SQLITE_OK, Some db)" and "tables_ok (fst (view db))"
    and "fst (snd (run (sql W) sql_last_sequence [SText (opt_node_id s)] (store_db store))) = SQLITE_DONE"
  shows "1 \<le> unat (n_next_sequence n)" and "unat (n_next_sequence n) \<le> 2 ^ 63"
proof -
  let ?l = "map_of (t_sequences (fst (view db))) (opt_node_id s)"
  have "int (unat (n_next_sequence n)) = (case ?l of None \<Rightarrow> 1 | Some l \<Rightarrow> l + 1)"
    using start_ok [OF assms] by blast
  moreover have "1 \<le> l \<and> l \<le> int64_max" if "?l = Some l" for l
    using assms(4) map_of_SomeD [OF that] by (auto simp: tables_ok_def list_all_iff)
  ultimately have "int 1 \<le> int (unat (n_next_sequence n)) \<and> int (unat (n_next_sequence n)) \<le> int (2 ^ 63)"
    by (cases ?l) (simp_all add: int64_max_def)
  then show "1 \<le> unat (n_next_sequence n)" and "unat (n_next_sequence n) \<le> 2 ^ 63"
    unfolding of_nat_le_iff by blast+
qed

end

section \<open>A start for the examples\<close>

text \<open>A start on the empty database file of the examples.\<close>

definition start_options :: Options where
  "start_options = default_options\<lparr>opt_node_id := ''node-a'', opt_port := 80, opt_database_path := ''les-chat-node-a.db''\<rparr>"

definition start_setup :: app_setup where
  "start_setup = \<lparr>as_event_base = True, as_interfaces = None,
     as_discovery = \<lparr>ds_socket = 3, ds_reuseaddr = 0, ds_broadcast = 0, ds_nonblocking = 0, ds_bind = 0,
       ds_receive_event = True, ds_announce_event = True, ds_add_receive = 0, ds_add_announce = 0\<rparr>,
     as_sync_timer = True, as_sync_add = 0, as_http_new = True, as_http_bind = 0\<rparr>"

definition start_clock :: Clock where
  "start_clock = \<lparr>system_ms = 1000, time_offset_ms = 0\<rparr>"

definition start_config :: Config where
  "start_config = config_of start_options []"

definition start_node :: "refdb Node" where
  "start_node = announce sample_env start_config (initial_node sample_store start_clock)"

lemma start_open: "open_store sample_engine (opt_database_path start_options) max_database_bytes = Inr sample_store"
  by (simp add: open_store_def initialize_schema_def andthen_def execute_def read_page_size_def prepare_def
      first_step_def column_int64_def column_def load_messages_def sample_store_def sample_engine_def
      empty_tables_def empty_refdb_def start_options_def max_database_bytes_def)

lemma start_next: "next_sequence sample_engine ''node-a'' sample_store = (Inr 1, sample_store)"
  by (simp add: next_sequence_def statement_simps sample_engine_def sample_store_def empty_refdb_def empty_tables_def)

lemma start_sample:
  "start_application sample_env start_options start_setup start_clock = Inr (start_config, start_node\<lparr>n_next_sequence := 1\<rparr>)"
proof -
  have c: "config_of start_options (interface_ipv4_address (as_interfaces start_setup) (opt_discovery_interface start_options)) =
      start_config"
    by (simp add: start_config_def start_options_def default_options_def interface_ipv4_address_def)
  have "acquire sample_env start_config (as_discovery start_setup) =
      (None, \<lparr>res_socket = 3, res_receive = True, res_announce = True\<rparr>)"
    by (simp add: acquire_def start_setup_def no_resources_def Let_def sample_os_def)
  moreover have "open_service sample_env start_config start_node = Inr (start_node\<lparr>n_next_sequence := 1\<rparr>)"
    using start_next
    by (simp add: open_service_def on_store_eq start_node_def announced_node start_config_def config_of_def start_options_def)
  ultimately show ?thesis
    by (simp add: start_application_def c start_open open_discovery_def Let_def flip: start_node_def)
       (simp add: open_sync_def open_http_def start_setup_def)
qed

section \<open>Properties\<close>

text \<open>
  C1: the invariant of the daemon: started from a command line on a database file that meets the
  table invariant, after any number of callbacks, in any order, with any requests, datagrams,
  responses and failures of the libraries, the database meets its table invariant with no
  transaction open, the copy in memory holds only stored messages, the peers are well formed
  and never the node itself, and the counter has grown by at most one per callback.
\<close>

theorem daemon_invariant:
  assumes "node_services W view" and "main_startup bits args = Start s"
    and "start_application W s d clock = Inr (C, n0)"
    and "open_store (sql W) (opt_database_path s) max_database_bytes = Inr store"
    and "open_v2 (sql W) (c_str (opt_database_path s)) = (SQLITE_OK, Some db)" and "tables_ok (fst (view db))"
    and "fst (snd (run (sql W) sql_last_sequence [SText (opt_node_id s)] (store_db store))) = SQLITE_DONE"
    and "app_reach W C n0 k n" and "k < 2 ^ 63"
  shows "snd (view (store_db (n_store n))) = None \<and> tables_ok (tables_of view (n_store n)) \<and>
    set (messages (n_store n)) \<subseteq> set (t_messages (tables_of view (n_store n))) \<and>
    peers_ok (opt_node_id s) (n_peers n) \<and>
    unat (n_next_sequence n0) \<le> unat (n_next_sequence n) \<and> unat (n_next_sequence n) \<le> unat (n_next_sequence n0) + k"
proof -
  have ok: "node_ok view C n0" using node_services.start_ok [OF assms(1,3-7)] by blast
  note counter = node_services.start_counter [OF assms(1,3-7)]
  have "unat (n_next_sequence n0) + k < 2 ^ 64" using counter(2) assms(9) by simp
  note r = node_services.reach_ok [OF assms(1,8) ok counter(1) this]
  then have "store_weak view (n_store n)" by (simp add: node_ok_def)
  then have "set (messages (n_store n)) \<subseteq> set (t_messages (tables_of view (n_store n)))"
    using subseq_member by (fastforce simp: store_weak_def messages_def)
  then show ?thesis using r started_config [OF assms(3)] by (simp add: node_ok_def store_weak_def)
qed

lemma start_services: "node_services sample_env ref_view"
  by (rule sample_services.node_services_axioms)

theorem daemon_invariant_witness:
  "tables_ok (tables_of ref_view (n_store (app_step sample_env start_config SyncTimer
     (app_step sample_env start_config AnnounceTimer (start_node\<lparr>n_next_sequence := 1\<rparr>)))))"
proof -
  have r: "app_reach sample_env start_config (start_node\<lparr>n_next_sequence := 1\<rparr>) (Suc (Suc 0))
      (app_step sample_env start_config SyncTimer (app_step sample_env start_config AnnounceTimer
        (start_node\<lparr>n_next_sequence := 1\<rparr>)))"
    by (intro app_reach.step app_reach.initial)
  have o: "open_v2 (sql sample_env) (c_str (opt_database_path start_options)) = (SQLITE_OK, Some (empty_refdb 5))"
    by (simp add: sample_engine_def empty_refdb_def)
  have t: "tables_ok (fst (ref_view (empty_refdb 5)))"
    using tables_ok_empty by (simp add: ref_view_def empty_refdb_def)
  show ?thesis
    using daemon_invariant [OF start_services sample_startup [folded start_options_def] start_sample _ o t _ r]
      start_open sample_last_done by simp
qed

text \<open>
  C9: the daemon leaks no outgoing connection: in every state it can reach from its start, each
  connection was opened at most once, and it was released exactly once or is owned by exactly one
  pending response; once nothing is pending, all are released.
\<close>

theorem connections_released:
  assumes "start_application W s d clock = Inr (C, n0)" and "app_reach W C n0 k n"
  shows "occurs (opens c) (n_calls n) =
      occurs (closes c) (n_calls n) + occurs (\<lambda>x. ctx_connection x = c) (n_pending n) \<and>
    occurs (opens c) (n_calls n) \<le> 1"
proof -
  have b: "balanced [] n" using assms start_balanced balanced_reach by blast
  show ?thesis
    using balancedD(1) [OF b, of c] order_trans [OF balancedD(2) [OF b, of c], of 1] by (simp add: owners_def)
qed

theorem connections_released_witness:
  "occurs (opens 7) (n_calls (app_step sample_env start_config SyncTimer (start_node\<lparr>n_next_sequence := 1\<rparr>))) \<le> 1"
proof -
  have r: "app_reach sample_env start_config (start_node\<lparr>n_next_sequence := 1\<rparr>) (Suc 0)
      (app_step sample_env start_config SyncTimer (start_node\<lparr>n_next_sequence := 1\<rparr>))"
    by (intro app_reach.step app_reach.initial)
  show ?thesis using connections_released [OF start_sample r] by blast
qed

end
