(* ===== verification/Les_Mesh.thy ===== *)
theory Les_Mesh
  imports Les_Run
begin

text \<open>
  Several components, and several nodes, together: what an HTTP client may conclude from the
  answer to a posted message, and the way of a message from the client of one node into the
  database of another by direct replication.
\<close>

section \<open>The reply in a trace of calls\<close>

definition silent :: "evcall list \<Rightarrow> bool" where
  "silent cs \<longleftrightarrow> list_all (\<lambda>c. reply_of [c] = None) cs"

lemma reply_of_silent: "silent cs \<Longrightarrow> reply_of (cs @ ds) = reply_of ds"
proof (induction cs)
  case Nil
  then show ?case by simp
next
  case (Cons c cs)
  then show ?case by (cases c) (simp_all add: silent_def)
qed

lemma silent_append [simp]: "silent (cs @ ds) \<longleftrightarrow> silent cs \<and> silent ds"
  by (simp add: silent_def)

lemma silent_Nil [simp]: "silent []"
  by (simp add: silent_def)

lemma silent_publish: "silent (publish nm d s)"
  by (induction s) (auto simp: silent_def)

lemma silent_post: "post_request L la cb hs path pl addr port h = (cs, ctx) \<Longrightarrow> silent cs"
proof -
  have "silent (post_headers r hs)" for r
    by (induction hs) (auto simp: silent_def post_headers_def)
  then show "post_request L la cb hs path pl addr port h = (cs, ctx) \<Longrightarrow> silent cs"
    by (auto simp: post_request_def Let_def silent_def split: if_splits)
qed

lemma silent_post_all:
  assumes "\<And>p h cs ctx. post p h = (cs, ctx) \<Longrightarrow> silent cs"
  shows "post_all post ps h = (cs, ctxs, h') \<Longrightarrow> silent cs"
proof (induction ps arbitrary: h cs ctxs h')
  case Nil
  then show ?case by simp
next
  case (Cons p ps)
  obtain cs1 ctx where a: "post p h = (cs1, ctx)" by fastforce
  obtain cs2 ctxs2 h2 where b: "post_all post ps (Suc h) = (cs2, ctxs2, h2)" by (metis prod_cases3)
  show ?case using Cons.IH [OF b] assms [OF a] Cons.prems a b by auto
qed

lemma broadcast_silent: "\<exists>cs. n_calls (broadcast W C t n) = n_calls n @ cs \<and> silent cs"
proof -
  obtain cs ctxs h where p: "post_all (replication_post (ev W) (cfg_local_address C) t)
     (active_peers (current_time_ms (n_clock n)) (n_peers n)) (n_handles n) = (cs, ctxs, h)"
    by (metis prod_cases3)
  have "silent cs" by (rule silent_post_all [OF _ p]) (simp add: replication_post_def silent_post)
  then show ?thesis using broadcast_eq [OF p] by auto
qed

text \<open>
  What the answer of a handler tells about its outcome.  \<open>answered q n r n'\<close>: the handler took the
  node from \<open>n\<close> to \<open>n'\<close> and its new calls reply \<open>r\<close>.
\<close>

definition answered :: "'db Node \<Rightarrow> (int \<times> bytes) option \<Rightarrow> 'db Node \<Rightarrow> bool" where
  "answered n r n' \<longleftrightarrow> (\<exists>cs. n_calls n' = n_calls n @ cs \<and> reply_of cs = r)"

lemma answered_json:
  assumes "n_calls n1 = n_calls n @ cs" and "silent cs" and "evbuffer_ok L h"
  shows "answered n (Some (st, b)) (emit (send_json L h st reason b) n1)"
  unfolding answered_def
  using assms by (intro exI [of _ "cs @ send_json L h st reason b"]) (simp add: reply_of_silent)

lemma answered_unique: "answered n r n' \<Longrightarrow> answered n r' n' \<Longrightarrow> r' = r"
  by (auto simp: answered_def)

section \<open>Requests that carry JSON\<close>

text \<open>A request for one of the POST routes reaches the handler of the route.\<close>

lemma post_routes:
  assumes "command q = EVHTTP_REQ_POST"
  shows "request_path (ev W) q = ''/api/v1/messages'' \<Longrightarrow> process_request W C q = create_message W C q"
    and "request_path (ev W) q = ''/api/v1/replicate'' \<Longrightarrow> process_request W C q = replicate_message W C q"
    and "request_path (ev W) q = ''/api/v1/sync/summary'' \<Longrightarrow> process_request W C q = sync_summary W C q"
    and "request_path (ev W) q = ''/api/v1/sync/messages'' \<Longrightarrow> process_request W C q = sync_messages W C q"
  using assms by (simp_all add: process_request_def routes_def Let_def)

context json_library
begin

lemma created_json_total: "\<exists>b. created_json J m = Inr b"
proof -
  obtain root where "make_json_object J = Inr root" using new_object_ok by (auto simp: make_json_object_def split: option.splits)
  then show ?thesis
    using message_to_json_total [of m] serialize_total by (auto simp: created_json_def)
qed

end

text \<open>Reading the body: a value, an answer that is not 200, or an exception; the rest is untouched.\<close>

lemma read_json_object_cases:
  assumes "read_json_object W q limit complete err n = (r, n')"
  obtains (got) v where "r = Inr (Some v)" "n' = n"
    | (answered) st reason b where "r = Inr None" "n' = emit (send_json (ev W) (handle q) st reason b) n" "st \<noteq> HTTP_OK"
    | (thrown) e where "r = Inl e" "n' = n"
proof (cases "has_json_content_type q")
  case False
  then show thesis
    using assms that(2) [of 415 "''Unsupported Media Type''"]
    by (auto simp: read_json_object_def andthen_def send_unsupported_media_type_def respond_def HTTP_OK_def)
next
  case True
  show thesis
  proof (cases "read_request_body q limit")
    case (Inl e)
    then show thesis using assms True that(3) by (auto simp: read_json_object_def andthen_def)
  next
    case (Inr txt')
    show thesis
    proof (cases "parse_json (js W) txt'")
      case (Inl e)
      then show thesis using assms True Inr that(3) by (auto simp: read_json_object_def andthen_def)
    next
      case parsed: (Inr p)
      show thesis
        using assms True Inr parsed that(1) [of "parsed_object p"] that(2) [of HTTP_BADREQUEST "''Bad Request''" err]
        by (auto simp: read_json_object_def andthen_def bad_request_def respond_def http_codes split: if_splits)
    qed
  qed
qed

text \<open>A request that is larger than the handler allows is answered with 413, and nothing else happens.\<close>

definition refused_too_large :: "('db, 'j) Env \<Rightarrow> HttpRequest \<Rightarrow> 'db Node \<Rightarrow> 'db Node" where
  "refused_too_large W q n =
     emit (send_json (ev W) (handle q) 413 ''Payload Too Large'' (error_body ''request_too_large'')) n"

lemma too_large_read:
  "has_json_content_type q \<Longrightarrow> limit < length (input q) \<Longrightarrow>
   read_json_object W q limit complete err n = (Inl (LengthError ''request_too_large''), n)"
  by (simp add: read_json_object_def andthen_def read_request_body_def Let_def)

lemma too_large_request:
  assumes "command q = EVHTTP_REQ_POST" and "has_json_content_type q"
    and "request_path (ev W) q \<in> {''/api/v1/replicate'', ''/api/v1/sync/summary''} \<and> max_request_bytes < length (input q) \<or>
      request_path (ev W) q = ''/api/v1/sync/messages'' \<and> max_sync_request_bytes < length (input q)"
  shows "handle_request W C q n = refused_too_large W q n"
proof -
  have "process_request W C q n = (Inl (LengthError ''request_too_large''), n)"
    using assms(3) post_routes(2-4) [OF assms(1), of W C] too_large_read [OF assms(2), of _ W _ _ n]
    by (auto simp: replicate_message_def sync_summary_def sync_messages_def andthen_def)
  then show ?thesis by (simp add: handle_request_def refused_too_large_def)
qed

lemma refused_answer:
  assumes "evbuffer_ok (ev W) (handle q)"
  shows "answered n (Some (413, error_body ''request_too_large'')) (refused_too_large W q n)"
    and "n_store (refused_too_large W q n) = n_store n"
  using answered_json [of n n "[]", OF _ _ assms] by (simp_all add: refused_too_large_def)

lemma create_message_cases:
  assumes "json_library (js W)" and "create_message W C q n = (r, n')"
  obtains (rejected) st reason b where "r = Inr ()" "n' = emit (send_json (ev W) (handle q) st reason b) n" "st \<noteq> HTTP_OK"
    | (unread) e where "r = Inl e" "n' = n"
    | (created) t m n1 b where "create_local W C t n = (Inr m, n1)" "created_json (js W) m = Inr b" "r = Inr ()"
        "n' = emit (send_json (ev W) (handle q) HTTP_OK ''OK'' b) n1"
    | (failed) t e where "create_local W C t n = (Inl e, n')" "r = Inl e"
proof -
  obtain p n1 where p: "read_json_object W q max_request_bytes False (error_body ''invalid_json'') n = (p, n1)" by fastforce
  from p show thesis
  proof (cases rule: read_json_object_cases)
    case (answered st reason b)
    then show thesis using assms(2) p that(1) by (auto simp: create_message_def andthen_def)
  next
    case (thrown e)
    then show thesis using assms(2) p that(2) by (auto simp: create_message_def andthen_def)
  next
    case v: (got v)
    show thesis
    proof (cases "check_body (js W) v")
      case (BodyError st reason b)
      then have "st \<noteq> HTTP_OK"
        by (auto simp: check_body_def Let_def http_codes split: option.splits if_splits)
      then show thesis
        using assms(2) p v BodyError that(1) by (auto simp: create_message_def andthen_def respond_def)
    next
      case (BodyText t)
      obtain c n2 where c: "create_local W C t n = (c, n2)" by fastforce
      show thesis
      proof (cases c)
        case (Inl e)
        then show thesis using assms(2) p v BodyText c that(4) by (auto simp: create_message_def andthen_def)
      next
        case (Inr m)
        then obtain b where "created_json (js W) m = Inr b"
          using json_library.created_json_total [OF assms(1)] by blast
        then show thesis
          using assms(2) p v BodyText c Inr that(3) by (auto simp: create_message_def andthen_def respond_def)
      qed
    qed
  qed
qed

lemma create_local_silent:
  assumes "json_library (js W)" and "create_local W C t n = (r, n')"
  shows "\<exists>cs. n_calls n' = n_calls n @ cs \<and> silent cs"
proof -
  let ?m = "local_message C (n_next_sequence n) (current_time_ms (n_clock n)) t"
  obtain x where x: "message_text (js W) ?m = Inr x"
    using json_library.message_text_total [OF assms(1)] by blast
  obtain a s where a: "add (sql W) ?m (n_store n) = (a, s)" by fastforce
  let ?n = "emit (publish ''message'' x (n_events n)) (n\<lparr>n_next_sequence := n_next_sequence n + 1, n_store := s\<rparr>)"
  obtain cs where "n_calls (broadcast W C x ?n) = n_calls ?n @ cs" "silent cs"
    using broadcast_silent by blast
  then show ?thesis
    using assms(2) a silent_publish [of "''message''" x "n_events n"]
    by (cases a) (auto simp: create_local_eq [OF x] Let_def intro: exI [of _ "[]"])
qed

lemma handle_request_Inl:
  assumes "process_request W C q n = (Inl e, n')"
  shows "\<exists>st reason b. st \<noteq> HTTP_OK \<and> handle_request W C q n = emit (send_json (ev W) (handle q) st reason b) n'"
  using assms by (cases e) (auto simp: handle_request_def http_codes intro!: exI)

lemma create_local_effect:
  assumes "json_library (js W)" and "sqlite_engine (sql W) view" and "store_weak view (n_store n)"
    and "1 \<le> unat (n_next_sequence n)" and "create_local W C txt n = (r, n')"
  defines "m \<equiv> local_message C (n_next_sequence n) (current_time_ms (n_clock n)) txt"
  shows "case r of
      Inr x \<Rightarrow> x = m \<and> (\<exists>b. add_effect m (tables_of view (n_store n)) (Inr b) (tables_of view (n_store n')))
    | Inl e \<Rightarrow> add_effect m (tables_of view (n_store n)) (Inl e) (tables_of view (n_store n')) \<and> n_pending n' = n_pending n"
proof -
  obtain t where t: "message_text (js W) m = Inr t"
    using json_library.message_text_total [OF assms(1)] by blast
  obtain a s where a: "add (sql W) m (n_store n) = (a, s)" by fastforce
  have "storable m" using assms(4) by (simp add: storable_def m_def)
  from sqlite_engine.add_weak [OF assms(2,3) this a] show ?thesis
    using create_local_eq [OF t [unfolded m_def]] assms(5) a by (cases a) (auto simp: Let_def m_def)
qed

text \<open>
  C5: what the answer to a posted message tells.  When it is 200, the message in its body has the
  local origin and the number the counter had, and it is the newest row of the database, unless a
  row that was there before has its id or its origin and number (which \<open>numbering_ok\<close> excludes, and
  which a forged message brings about).  When it is anything else no message was stored and
  nothing was sent to a peer: the table has the rows it had, or lost its oldest hundred.  The
  counter is assumed to be at least 1, and libevent to have a buffer for the answer.
\<close>

theorem posted_message_stored:
  assumes "json_library (js W)" and "sqlite_engine (sql W) view" and "store_weak view (n_store n)"
    and "1 \<le> unat (n_next_sequence n)"
    and "command q = EVHTTP_REQ_POST" and "request_path (ev W) q = ''/api/v1/messages''"
    and "evbuffer_ok (ev W) (handle q)"
  shows "\<exists>st b. answered n (Some (st, b)) (handle_request W C q n) \<and>
    (let rows = t_messages (tables_of view (n_store n));
         rows' = t_messages (tables_of view (n_store (handle_request W C q n))) in
     if st = HTTP_OK
     then \<exists>m. created_json (js W) m = Inr b \<and> origin m = node_id (cfg_identity C) \<and> sequence m = n_next_sequence n \<and>
       (m \<in> set rows' \<and> last rows' = m \<or>
        (\<exists>x \<in> set rows. message_id x = message_id m \<or> origin x = origin m \<and> sequence x = sequence m))
     else (rows' = rows \<or> rows' = drop 100 rows) \<and> n_pending (handle_request W C q n) = n_pending n)"
proof -
  obtain r n' where c: "create_message W C q n = (r, n')" by fastforce
  then have p: "process_request W C q n = (r, n')" using post_routes(1) [OF assms(5,6)] by metis
  have thrown: ?thesis if e: "r = Inl e" and cs: "\<exists>cs. n_calls n' = n_calls n @ cs \<and> silent cs"
    and x: "t_messages (tables_of view (n_store n')) = t_messages (tables_of view (n_store n)) \<or>
      t_messages (tables_of view (n_store n')) = drop 100 (t_messages (tables_of view (n_store n)))"
      "n_pending n' = n_pending n" for e
  proof -
    obtain st reason b where h: "st \<noteq> HTTP_OK" "handle_request W C q n = emit (send_json (ev W) (handle q) st reason b) n'"
      using handle_request_Inl [OF p [unfolded e]] by blast
    then show ?thesis
      using cs x answered_json [OF _ _ assms(7)] by (intro exI [of _ st] exI [of _ b]) auto
  qed
  from assms(1) c show ?thesis
  proof (cases rule: create_message_cases)
    case (rejected st reason b)
    then show ?thesis
      using p answered_json [of n n "[]", OF _ _ assms(7)]
      by (intro exI [of _ st] exI [of _ b]) (simp add: handle_request_def)
  next
    case (unread e)
    then show ?thesis using thrown by auto
  next
    case (failed t e)
    have "t_messages (tables_of view (n_store n')) = t_messages (tables_of view (n_store n)) \<or>
        t_messages (tables_of view (n_store n')) = drop 100 (t_messages (tables_of view (n_store n)))"
      "n_pending n' = n_pending n"
      using create_local_effect [OF assms(1-4) failed(1)] by (auto simp: prune_rows_def elim!: add_effect_InlE)
    then show ?thesis by (rule thrown [OF failed(2) create_local_silent [OF assms(1) failed(1)]])
  next
    case (created t m n1 b)
    obtain d where m: "m = local_message C (n_next_sequence n) (current_time_ms (n_clock n)) t"
      "add_effect m (tables_of view (n_store n)) (Inr d) (tables_of view (n_store n1))"
      using create_local_effect [OF assms(1-4) created(1)] by auto
    have stored: "m \<in> set (t_messages (tables_of view (n_store n1))) \<and> last (t_messages (tables_of view (n_store n1))) = m \<or>
        (\<exists>x \<in> set (t_messages (tables_of view (n_store n))).
          message_id x = message_id m \<or> origin x = origin m \<and> sequence x = sequence m)"
      using m(2) by (cases d) (auto dest: add_effect_True add_effect_False)
    have h: "handle_request W C q n = emit (send_json (ev W) (handle q) HTTP_OK ''OK'' b) n1"
      using p created by (simp add: handle_request_def)
    have "answered n (Some (HTTP_OK, b)) (handle_request W C q n)"
      using create_local_silent [OF assms(1) created(1)] answered_json [OF _ _ assms(7)] h by auto
    moreover have "origin m = node_id (cfg_identity C)" "sequence m = n_next_sequence n" by (simp_all add: m(1))
    ultimately show ?thesis
      using created(2) stored unfolding h Let_def emit_fields
      by (intro exI [of _ HTTP_OK] exI [of _ b] conjI) (assumption, simp only: if_True simp_thms, intro exI [of _ m], simp)
  qed
qed

text \<open>A client that posts a text to the node of the examples.\<close>

definition post_message :: HttpRequest where
  \<open>post_message = sample_request EVHTTP_REQ_POST ''/api/v1/messages'' ''{"body":"hello"}''\<close>

lemma post_text: \<open>json_print (JObject [(''body'', JString ''hello'')]) = ''{"body":"hello"}''\<close>
  by (simp add: print_string_def escape_char_def)

lemma post_answer:
  "\<exists>b. answered sample_node (Some (HTTP_OK, b)) (handle_request sample_env sample_config post_message sample_node)"
proof -
  let ?v = "JObject [(''body'', JString ''hello'')]"
  have p: "parse_json (js sample_env) (input post_message) =
      Inr \<lparr>parsed_object = ?v, parsed_ok = True, parse_end = length (input post_message)\<rparr>"
  proof -
    have i: "input post_message = json_print ?v"
      unfolding post_text by (simp add: post_message_def sample_request_def)
    show ?thesis unfolding i using json_tokener_print [of ?v] by (simp add: sample_parse del: json_print.simps)
  qed
  have q: "has_json_content_type post_message" "copied post_message = int (length (input post_message))"
      "length (input post_message) \<le> max_request_bytes"
    by (simp_all add: post_message_def sample_request_def has_json_content_type_def c_str_def max_request_bytes_def)
  have ob: "json_is_object (js sample_env) ?v" by (simp add: json_is_object_def sample_jsonc_def json_values_def)
  obtain b where b: "created_json sample_jsonc (sample_message 1) = Inr b"
    using json_library.created_json_total [OF sample_jsonc_library] by blast
  have "create_message sample_env sample_config post_message sample_node =
      (Inr (), emit (send_json sample_libevent (handle post_message) HTTP_OK ''OK'' b) sample_created)"
    unfolding create_message_def read_json_object_ok [OF q p ob]
    using sample_check_body sample_create(1) b by (simp add: andthen_def ret_def respond_def lift_result_def)
  then have h: "handle_request sample_env sample_config post_message sample_node =
      emit (send_json sample_libevent (handle post_message) HTTP_OK ''OK'' b) sample_created"
    using post_routes(1) [of post_message sample_env sample_config] by (simp add: handle_request_def post_message_def)
  obtain cs where "n_calls sample_created = n_calls sample_node @ cs" "silent cs"
    using create_local_silent [OF _ sample_create(1)] sample_jsonc_library by auto
  moreover have "evbuffer_ok sample_libevent (handle post_message)" by (simp add: sample_libevent_def)
  ultimately have "answered sample_node (Some (HTTP_OK, b))
      (emit (send_json sample_libevent (handle post_message) HTTP_OK ''OK'' b) sample_created)"
    by (rule answered_json)
  then show ?thesis unfolding h by blast
qed

theorem posted_message_stored_witness:
  "\<exists>b m. answered sample_node (Some (HTTP_OK, b)) (handle_request sample_env sample_config post_message sample_node) \<and>
     created_json sample_jsonc m = Inr b \<and> sequence m = 1 \<and>
     last (t_messages (tables_of ref_view (n_store (handle_request sample_env sample_config post_message sample_node)))) = m"
proof -
  let ?n = "handle_request sample_env sample_config post_message sample_node"
  have p: "request_path (ev sample_env) post_message = ''/api/v1/messages''"
    by (simp add: post_message_def sample_path)
  have w: "store_weak ref_view (n_store sample_node)"
    using store_inv_weak [OF sample_store_inv] by simp
  have l: "json_library (js sample_env)" "sqlite_engine (sql sample_env) ref_view" "1 \<le> unat (n_next_sequence sample_node)"
      "command post_message = EVHTTP_REQ_POST" "evbuffer_ok (ev sample_env) (handle post_message)"
    using sample_jsonc_library sample_engine_ok
    by (auto simp: post_message_def command_sample sample_libevent_def)
  have rows: "t_messages (tables_of ref_view (n_store sample_node)) = []"
    by (simp add: tables_of_def sample_store_def ref_view_def empty_refdb_def empty_tables_def)
  obtain st b where a: "answered sample_node (Some (st, b)) ?n"
      and m: "st = HTTP_OK \<longrightarrow> (\<exists>m. created_json sample_jsonc m = Inr b \<and> sequence m = n_next_sequence sample_node \<and>
        last (t_messages (tables_of ref_view (n_store ?n))) = m)"
    using posted_message_stored [OF l(1,2) w l(3,4) p l(5)] rows by (fastforce simp: Let_def)
  obtain b' where "answered sample_node (Some (HTTP_OK, b')) ?n"
    using post_answer by blast
  then have "st = HTTP_OK" using a answered_unique by fastforce
  then show ?thesis using a m by auto
qed

section \<open>From one node to another\<close>

lemma post_all_member:
  assumes "p \<in> set ps" and "post_all post ps h = (cs, ctxs, h')"
  shows "\<exists>k cs1 ctx. h \<le> k \<and> k < h' \<and> post p k = (cs1, ctx) \<and> set cs1 \<subseteq> set cs"
  using assms
proof (induction ps arbitrary: h cs ctxs h')
  case Nil
  then show ?case by simp
next
  case (Cons x ps)
  obtain cs1 ctx where a: "post x h = (cs1, ctx)" by fastforce
  obtain cs2 ctxs2 h2 where b: "post_all post ps (Suc h) = (cs2, ctxs2, h2)" by (metis prod_cases3)
  have h: "cs = cs1 @ cs2" "h' = h2" "h2 = Suc h + length ps"
    using Cons.prems(2) a b post_all_count [OF b] by auto
  show ?case
  proof (cases "p = x")
    case True
    then show ?thesis using a h by (intro exI [of _ h] exI [of _ cs1] exI [of _ ctx]) auto
  next
    case False
    then obtain k cs1' ctx' where "Suc h \<le> k" "k < h2" "post p k = (cs1', ctx')" "set cs1' \<subseteq> set cs2"
      using Cons.IH [OF _ b] Cons.prems(1) by auto
    then show ?thesis using h by (intro exI [of _ k] exI [of _ cs1'] exI [of _ ctx']) auto
  qed
qed

text \<open>The calls of a request to a peer that libevent accepts.\<close>

definition posted :: "bytes \<Rightarrow> u16 \<Rightarrow> bytes \<Rightarrow> bytes \<Rightarrow> evcall list \<Rightarrow> bool" where
  "posted addr port path payload cs \<longleftrightarrow>
     (\<exists>h. {ConnectionNew h (c_str addr) port, AddHeader h ''Content-Type'' ''application/json'',
        BufferAdd h payload, MakeRequest h h path True} \<subseteq> set cs)"

lemma broadcast_posts:
  assumes "p \<in> set (active_peers (current_time_ms (n_clock n)) (n_peers n))" and "\<forall>h. outcome (ev W) h = Sent"
    and "n_calls (broadcast W C t n) = n_calls n @ cs"
  shows "posted (address p) (http_port p) ''/api/v1/replicate'' t cs"
proof -
  let ?ps = "active_peers (current_time_ms (n_clock n)) (n_peers n)"
  obtain ds ctxs h where post: "post_all (replication_post (ev W) (cfg_local_address C) t) ?ps (n_handles n) = (ds, ctxs, h)"
    by (metis prod_cases3)
  have "cs = ds" using assms(3) broadcast_eq [OF post] by simp
  moreover obtain k ds1 ctx where "replication_post (ev W) (cfg_local_address C) t p k = (ds1, ctx)" "set ds1 \<subseteq> set ds"
    using post_all_member [OF assms(1) post] by blast
  ultimately show ?thesis
    using assms(2) unfolding posted_def
    by (intro exI [of _ k]) (auto simp: replication_post_def post_request_def post_headers_def Let_def)
qed

lemma create_local_posts:
  assumes "json_library (js W)" and "create_local W C t n = (Inr m, n')" and "message_text (js W) m = Inr payload"
    and "p \<in> set (active_peers (current_time_ms (n_clock n)) (n_peers n))" and "\<forall>h. outcome (ev W) h = Sent"
  shows "\<exists>cs. n_calls n' = n_calls n @ cs \<and> posted (address p) (http_port p) ''/api/v1/replicate'' payload cs"
proof -
  let ?m = "local_message C (n_next_sequence n) (current_time_ms (n_clock n)) t"
  obtain x where x: "message_text (js W) ?m = Inr x"
    using json_library.message_text_total [OF assms(1)] by blast
  obtain a s where a: "add (sql W) ?m (n_store n) = (a, s)" by fastforce
  let ?n = "emit (publish ''message'' x (n_events n)) (n\<lparr>n_next_sequence := n_next_sequence n + 1, n_store := s\<rparr>)"
  have m: "m = ?m" and n': "n' = broadcast W C x ?n"
    using create_local_eq [OF x] assms(2) a by (cases a; simp add: Let_def)+
  then have "x = payload" using x assms(3) by simp
  obtain cs where cs: "n_calls (broadcast W C x ?n) = n_calls ?n @ cs" using broadcast_silent by blast
  have "posted (address p) (http_port p) ''/api/v1/replicate'' x cs"
    by (rule broadcast_posts [OF _ assms(5) cs]) (use assms(4) in simp)
  then show ?thesis
    using cs n' \<open>x = payload\<close> by (intro exI [of _ "publish ''message'' x (n_events n) @ cs"]) (auto simp: posted_def)
qed

lemma replicate_message_runs:
  assumes J: "json_library (js W)" and m: "relayable m"
    and v: "message_to_json (js W) m = Inr v" "serialize_json (js W) v = Inr (input q)" "reads_back (js W) v"
    and q: "has_json_content_type q" "copied q = int (length (input q))" "length (input q) \<le> max_request_bytes"
  shows "replicate_message W C q = andthen (ingest_replica W m) (\<lambda>accepted.
    respond W q HTTP_OK ''OK'' (if accepted then status_body ''accepted'' else status_body ''duplicate''))"
proof -
  have parse: "parse_message (js W) v = Some m" by (rule json_library.parse_relayable [OF J m v(1)])
  have p: "parse_json (js W) (input q) = Inr \<lparr>parsed_object = v, parsed_ok = True, parse_end = length (input q)\<rparr>"
    using v(2,3) by (auto simp: reads_back_def)
  have "object_is_type (js W) v json_type_object" using parse by (auto simp: parse_message_def split: if_splits)
  then have "json_is_object (js W) v"
    using json_library.object_not_null [OF J] by (simp add: json_is_object_def)
  from read_json_object_ok [OF q p this] show ?thesis
    unfolding replicate_message_def using parse by (simp add: andthen_def fun_eq_iff)
qed

lemma replica_answer:
  assumes J: "json_library (js W)" and E: "sqlite_engine (sql W) view" and s: "store_weak view (n_store n)"
    and m: "relayable m" and fr: "fresh m (tables_of view (n_store n))"
    and v: "message_to_json (js W) m = Inr v" "serialize_json (js W) v = Inr (input q)" "reads_back (js W) v"
    and q: "has_json_content_type q" "copied q = int (length (input q))" "length (input q) \<le> max_request_bytes"
    and route: "command q = EVHTTP_REQ_POST" "request_path (ev W) q = ''/api/v1/replicate''"
    and buf: "evbuffer_ok (ev W) (handle q)"
  shows "answered n (Some (HTTP_OK, status_body ''accepted'')) (handle_request W C q n) \<and>
      m \<in> set (t_messages (tables_of view (n_store (handle_request W C q n)))) \<or>
    (\<exists>e st b. fst (ingest_replica W m n) = Inl e \<and> st \<noteq> HTTP_OK \<and>
      answered n (Some (st, b)) (handle_request W C q n))"
proof -
  obtain r n' where i: "ingest_replica W m n = (r, n')" by fastforce
  have st: "storable m" using m by (simp add: relayable_def accepted_message_def storable_def)
  note c = ingest_replica_cases [OF J E s st i]
  have p: "process_request W C q n = andthen (ingest_replica W m) (\<lambda>accepted.
      respond W q HTTP_OK ''OK'' (if accepted then status_body ''accepted'' else status_body ''duplicate'')) n"
    using post_routes(2) [OF route] replicate_message_runs [OF J m v q] by simp
  have "message_id m \<notin> message_id ` set (t_messages (tables_of view (n_store n)))"
    using fr by (auto simp: fresh_def list_all_iff)
  with c consider (ok) t b where "r = Inr True" "add_effect m (tables_of view (n_store n)) (Inr b) (tables_of view (n_store n'))"
      "n_calls n' = n_calls n @ publish ''message'' t (n_events n)"
    | (thrown) e where "r = Inl e" "n_calls n' = n_calls n"
    by (auto split: sum.splits bool.splits)
  then show ?thesis
  proof cases
    case ok
    have b: "b" using add_effect_fresh [OF ok(2) fr] by blast
    have h: "handle_request W C q n = emit (send_json (ev W) (handle q) HTTP_OK ''OK'' (status_body ''accepted'')) n'"
      using p i ok(1) by (simp add: handle_request_def andthen_def respond_def)
    have "m \<in> set (t_messages (tables_of view (n_store n')))"
      using add_effect_True ok(2) b by (cases b) auto
    then show ?thesis using answered_json [OF ok(3) silent_publish buf] by (simp add: h)
  next
    case thrown
    obtain st reason b where "st \<noteq> HTTP_OK" "handle_request W C q n = emit (send_json (ev W) (handle q) st reason b) n'"
      using p i thrown(1) handle_request_Inl [of W C q n e n'] by (auto simp: andthen_def)
    then show ?thesis
      using i thrown answered_json [of n' n "[]", OF _ _ buf, of st b reason] by (intro disjI2) auto
  qed
qed

text \<open>
  C2: a message reaches the peers: when a node has created a message, its calls post the text of
  the message to every active peer (libevent is assumed to accept the requests).  A peer that gets
  this text as a request and stores no row with the id, or with the origin and number, of the
  message answers \<open>accepted\<close> and has the message in its database, unless its database fails, which
  it reports with another status; a text of more than 4096 bytes it refuses with 413, and its
  store is unchanged.  The message is assumed to be one that \<open>parse_message\<close> accepts, with ids free
  of zero bytes (\<open>relayable\<close>), and json-c to read back the text it printed.
\<close>

theorem message_reaches_peer:
  assumes "json_library (js A)" and "create_local A CA t nA = (Inr m, nA')" and "relayable m"
    and "p \<in> set (active_peers (current_time_ms (n_clock nA)) (n_peers nA))" and "\<forall>h. outcome (ev A) h = Sent"
    and "js B = js A" and "sqlite_engine (sql B) view" and "store_weak view (n_store nB)"
    and "fresh m (tables_of view (n_store nB))"
    and "message_to_json (js A) m = Inr v" and "serialize_json (js A) v = Inr (input q)" and "reads_back (js A) v"
    and "content_type q = Some ''application/json''" and "copied q = int (length (input q))"
    and "command q = EVHTTP_REQ_POST" and "request_path (ev B) q = ''/api/v1/replicate''" and "evbuffer_ok (ev B) (handle q)"
  shows "(\<exists>cs. n_calls nA' = n_calls nA @ cs \<and> posted (address p) (http_port p) ''/api/v1/replicate'' (input q) cs) \<and>
    (if length (input q) \<le> max_request_bytes
     then answered nB (Some (HTTP_OK, status_body ''accepted'')) (handle_request B CB q nB) \<and>
         m \<in> set (t_messages (tables_of view (n_store (handle_request B CB q nB)))) \<or>
       (\<exists>e st b. fst (ingest_replica B m nB) = Inl e \<and> st \<noteq> HTTP_OK \<and>
         answered nB (Some (st, b)) (handle_request B CB q nB))
     else answered nB (Some (413, error_body ''request_too_large'')) (handle_request B CB q nB) \<and>
       n_store (handle_request B CB q nB) = n_store nB)"
proof
  have payload: "message_text (js A) m = Inr (input q)"
    using assms(10,11) by (simp add: message_text_def)
  show "\<exists>cs. n_calls nA' = n_calls nA @ cs \<and> posted (address p) (http_port p) ''/api/v1/replicate'' (input q) cs"
    by (rule create_local_posts [OF assms(1,2) payload assms(4,5)])
  have j: "has_json_content_type q" using assms(13) by (simp add: has_json_content_type_def c_str_def)
  show "if length (input q) \<le> max_request_bytes
     then answered nB (Some (HTTP_OK, status_body ''accepted'')) (handle_request B CB q nB) \<and>
         m \<in> set (t_messages (tables_of view (n_store (handle_request B CB q nB)))) \<or>
       (\<exists>e st b. fst (ingest_replica B m nB) = Inl e \<and> st \<noteq> HTTP_OK \<and>
         answered nB (Some (st, b)) (handle_request B CB q nB))
     else answered nB (Some (413, error_body ''request_too_large'')) (handle_request B CB q nB) \<and>
       n_store (handle_request B CB q nB) = n_store nB"
  proof (cases "length (input q) \<le> max_request_bytes")
    case True
    have "json_library (js B)" "message_to_json (js B) m = Inr v" "serialize_json (js B) v = Inr (input q)" "reads_back (js B) v"
      using assms(1,6,10-12) by simp_all
    from replica_answer [OF this(1) assms(7,8,3,9) this(2-4) j assms(14) True assms(15-17), of CB] True
    show ?thesis by simp
  next
    case False
    then have "handle_request B CB q nB = refused_too_large B q nB"
      by (intro too_large_request [OF assms(15) j]) (simp add: assms(16))
    then show ?thesis using False refused_answer [OF assms(17)] by simp
  qed
qed

text \<open>Two nodes for the examples: the first knows the second, which has no messages.\<close>

definition mesh_peer :: Peer where
  "mesh_peer = \<lparr>peer_node_id = ''node-b'', peer_callsign = ''Ash'', address = ''10.0.0.2'', http_port = 7777,
     peer_app_version = app_version, last_seen_ms = 1\<rparr>"

definition mesh_node :: "refdb Node" where
  "mesh_node = sample_node\<lparr>n_peers := [(''node-b'', mesh_peer)]\<rparr>"

definition mesh_request :: HttpRequest where
  "mesh_request = sample_request EVHTTP_REQ_POST ''/api/v1/replicate'' (json_print sample_item)"

lemma mesh_fields [simp]:
  "n_store mesh_node = sample_store" "n_next_sequence mesh_node = 1" "current_time_ms (n_clock mesh_node) = 1"
  "input mesh_request = json_print sample_item" "content_type mesh_request = Some ''application/json''"
  "copied mesh_request = int (length (json_print sample_item))" "handle mesh_request = 1"
  using sample_node_fields(4)
  by (simp_all add: mesh_node_def mesh_request_def) (simp_all add: sample_request_def)

lemma mesh_route:
  "command mesh_request = EVHTTP_REQ_POST" "request_path sample_libevent mesh_request = ''/api/v1/replicate''"
  "evbuffer_ok sample_libevent h" "outcome sample_libevent h = Sent"
  by (simp_all add: mesh_request_def) (simp_all add: sample_libevent_def)

lemma mesh_create: "\<exists>n'. create_local sample_env sample_config ''hello'' mesh_node = (Inr (sample_message 1), n')"
proof -
  have t: "message_text (js sample_env) (local_message sample_config (n_next_sequence mesh_node)
      (current_time_ms (n_clock mesh_node)) ''hello'') = Inr (json_print sample_item)"
    using sample_item_json by (simp add: sample_local_message message_text_def sample_serialize)
  show ?thesis
    using sample_add by (subst create_local_eq [OF t]) (simp add: sample_local_message Let_def)
qed

theorem message_reaches_peer_witness:
  "(\<exists>n' cs. create_local sample_env sample_config ''hello'' mesh_node = (Inr (sample_message 1), n') \<and>
     n_calls n' = n_calls mesh_node @ cs \<and> posted (address mesh_peer) (http_port mesh_peer) ''/api/v1/replicate'' (json_print sample_item) cs)"
proof -
  obtain n' where c: "create_local sample_env sample_config ''hello'' mesh_node = (Inr (sample_message 1), n')"
    using mesh_create by blast
  have peer: "mesh_peer \<in> set (active_peers (current_time_ms (n_clock mesh_node)) (n_peers mesh_node))"
    by (simp add: mesh_node_def [THEN arg_cong, of n_peers] active_peers_def is_active_def mesh_peer_def peer_timeout_ms_def Let_def)
  have "fresh (sample_message 1) (tables_of ref_view sample_store)"
    by (simp add: fresh_def tables_of_def sample_store_def ref_view_def empty_refdb_def empty_tables_def)
  then have "\<exists>cs. n_calls n' = n_calls mesh_node @ cs \<and> posted (address mesh_peer) (http_port mesh_peer) ''/api/v1/replicate'' (input mesh_request) cs"
    by (intro message_reaches_peer [where A = sample_env and B = sample_env and view = ref_view and nB = sample_node and
          v = sample_item and q = mesh_request, OF _ c sample_relayable peer, THEN conjunct1])
       (simp_all add: mesh_route sample_json sample_item_json [simplified] text_lengths sample_engine_ok store_inv_weak [OF sample_store_inv])
  then show ?thesis using c by auto
qed

section \<open>A text that the node accepts and its peers refuse\<close>

text \<open>
  json-c escapes the slash, so a text of slashes takes two bytes for each of its own on the way to
  the peers.
\<close>

definition slashes :: bytes where
  "slashes = replicate 2048 (CHR ''/'')"

definition slash_message :: ChatMessage where
  "slash_message = local_message sample_config 1 1 slashes"

definition slash_item :: json where
  "slash_item = add_members sample_jsonc (message_members sample_jsonc slash_message) (JObject [])"

definition slash_request :: HttpRequest where
  "slash_request = sample_request EVHTTP_REQ_POST ''/api/v1/replicate'' (json_print slash_item)"

lemma length_commas: "x \<in> set xs \<Longrightarrow> length x \<le> length (commas xs)"
  by (induction xs rule: commas.induct) auto

lemma length_member: "(k, v) \<in> set ms \<Longrightarrow> length (json_print v) \<le> length (json_print (JObject ms))"
  using length_commas [of "print_string k @ CHR '':'' # json_print v" "map (\<lambda>(k, v). print_string k @ CHR '':'' # json_print v) ms"]
  by force

lemma slash_text: "max_request_bytes < length (json_print slash_item)"
proof -
  have "concat (map escape_char (replicate k (CHR ''/''))) = concat (replicate k [CHR 0x5C, CHR ''/''])" for k
    by (induction k) (simp_all add: escape_char_def)
  moreover have "length (concat (replicate k [CHR 0x5C, CHR ''/''])) = 2 * k" for k
    by (induction k) simp_all
  ultimately have "length (json_print (JString slashes)) = 4098"
    by (simp add: print_string_def slashes_def)
  moreover have "\<exists>ms. slash_item = JObject ms \<and> (''body'', JString slashes) \<in> set ms"
    by (simp add: slash_item_def message_members_def add_members_def sample_jsonc_def json_values_def slash_message_def local_message_def)
  ultimately show ?thesis using length_member [of "''body''" "JString slashes"] by (fastforce simp: max_request_bytes_def)
qed

lemma slashes_utf8: "is_valid_utf8 slashes"
  by (rule utf8_ascii) (simp add: slashes_def list_all_iff byte_val_def)


section \<open>A forged number\<close>

lemma ingest_replica_counter:
  assumes "json_library (js W)" and "ingest_replica W m n = (r, n')"
  shows "n_next_sequence n' = n_next_sequence n"
proof -
  obtain t where t: "message_text (js W) m = Inr t"
    using json_library.message_text_total [OF assms(1)] by blast
  show ?thesis
    using assms(2) by (auto simp: ingest_replica_eq [OF t] split: prod.splits sum.splits if_splits)
qed

text \<open>
  C40: \<open>create_local\<close> ignores the result of \<open>add\<close>: when a peer delivers a message under the local origin
  with the next local number and an id of its own, it is accepted and stored; the next local
  message, which gets that number, is returned to the client, published to the subscribers and
  posted to every active peer, but it is not in the database (as long as the database does not
  report itself full while adding it).
\<close>

theorem forged_origin_loses_local:
  assumes "json_library (js W)" and "sqlite_engine (sql W) view" and "store_weak view (n_store n)"
    and "1 \<le> unat (n_next_sequence n)" and "origin f = node_id (cfg_identity C)" and "sequence f = n_next_sequence n"
    and "message_id f \<noteq> message_id_of (node_id (cfg_identity C)) (n_next_sequence n)" and "fresh f (tables_of view (n_store n))"
    and "ingest_replica W f n = (Inr True, n1)" and "create_local W C txt n1 = (Inr m, n2)"
    and "\<not> answers_full (sql W) m (store_db (n_store n1))"
    and "p \<in> set (active_peers (current_time_ms (n_clock n1)) (n_peers n1))" and "\<forall>h. outcome (ev W) h = Sent"
  shows "f \<in> set (t_messages (tables_of view (n_store n1))) \<and> sequence m = n_next_sequence n \<and> body m = txt \<and>
    (\<exists>t cs. message_text (js W) m = Inr t \<and> n_calls n2 = n_calls n1 @ publish ''message'' t (n_events n1) @ cs \<and>
       posted (address p) (http_port p) ''/api/v1/replicate'' t cs) \<and>
    m \<notin> set (t_messages (tables_of view (n_store n2)))"
proof -
  have st: "storable f" using assms(4,6) by (simp add: storable_def)
  obtain b where spec: "add_effect f (tables_of view (n_store n)) (Inr b) (tables_of view (n_store n1))"
      and w: "store_weak view (n_store n1)"
    using ingest_replica_cases [OF assms(1-3) st assms(9)] by auto
  have f: "f \<in> set (t_messages (tables_of view (n_store n1)))"
    using add_effect_True spec add_effect_fresh [OF spec assms(8)] by (cases b) auto
  have next_n1: "n_next_sequence n1 = n_next_sequence n" by (rule ingest_replica_counter [OF assms(1,9)])
  let ?m = "local_message C (n_next_sequence n1) (current_time_ms (n_clock n1)) txt"
  obtain t where t: "message_text (js W) ?m = Inr t"
    using json_library.message_text_total [OF assms(1)] by blast
  obtain a s where a: "add (sql W) ?m (n_store n1) = (a, s)" by fastforce
  let ?n = "emit (publish ''message'' t (n_events n1)) (n1\<lparr>n_next_sequence := n_next_sequence n1 + 1, n_store := s\<rparr>)"
  obtain d where d: "a = Inr d" and m: "m = ?m" and n2: "n2 = broadcast W C t ?n"
    using create_local_eq [OF t] assms(10) a by (cases a) (auto simp: Let_def)
  obtain cs where cs: "n_calls (broadcast W C t ?n) = n_calls ?n @ cs" using broadcast_silent by blast
  have posts: "posted (address p) (http_port p) ''/api/v1/replicate'' t cs"
    by (rule broadcast_posts [OF _ assms(13) cs]) (use assms(12) in simp)
  have "storable ?m" using assms(4) next_n1 by (simp add: storable_def)
  from sqlite_engine.add_refines [OF assms(2) w this a] assms(11)
  have spec2: "add_spec False ?m (tables_of view (n_store n1)) (Inr d) (tables_of view s)" by (simp add: m d)
  have "\<not> fresh ?m (tables_of view (n_store n1))"
    using f assms(5,6) next_n1 by (auto simp: fresh_def list_all_iff)
  then have rows: "tables_of view s = tables_of view (n_store n1)"
    using spec2 by (auto elim!: add_spec_notfullE simp: insert_tables_def)
  have "?m \<notin> set (t_messages (tables_of view (n_store n1)))"
  proof
    assume in1: "?m \<in> set (t_messages (tables_of view (n_store n1)))"
    have "inj_on (\<lambda>m. (origin m, sequence m)) (set (t_messages (tables_of view (n_store n1))))"
      using w by (simp add: store_weak_def tables_ok_def distinct_map)
    from inj_onD [OF this _ in1 f] have "?m = f"
      using assms(5,6) next_n1 by simp
    then have "message_id f = message_id ?m" by simp
    then show False using assms(7) next_n1 by simp
  qed
  then have "m \<notin> set (t_messages (tables_of view (n_store n2)))" using rows by (simp add: m n2)
  moreover have "n_calls n2 = n_calls n1 @ publish ''message'' t (n_events n1) @ cs" using cs by (simp add: n2)
  ultimately show ?thesis
    using f t posts next_n1 by (auto simp: m) (simp add: local_message_def)
qed

lemma forged_fresh: "fresh forged_message (tables_of ref_view sample_store)"
  by (simp add: fresh_def tables_of_def sample_store_def ref_view_def empty_refdb_def empty_tables_def)

definition forged_store :: "refdb MessageStore" where
  "forged_store = \<lparr>store_db = (empty_refdb 5)\<lparr>cur := insert_tables forged_message empty_tables, last_changes := 1\<rparr>,
     store_messages = [forged_message]\<rparr>"

definition forged_node :: "refdb Node" where
  "forged_node = emit (publish ''message'' (sample_message_text forged_message) (n_events mesh_node))
     (mesh_node\<lparr>n_store := forged_store\<rparr>)"

lemma forged_delivery: "ingest_replica sample_env forged_message mesh_node = (Inr True, forged_node)"
proof -
  have c: "contains sample_engine (message_id forged_message) sample_store = (Inr False, sample_store)"
    by (simp add: contains_def statement_simps sample_engine_def sample_store_def empty_refdb_def empty_tables_def)
  have a: "add sample_engine forged_message sample_store = (Inr True, forged_store)"
    unfolding sample_engine_def sample_store_def forged_store_def
    by (subst ref_add_fresh)
       (simp_all add: empty_refdb_def empty_tables_def fresh_def sample_message_def forged_message_def)
  from a c show ?thesis
    by (simp add: ingest_replica_eq [OF sample_text [folded sample_env_fields(2)]] forged_node_def)
qed

lemma forged_collision: "insert_message sample_engine (sample_message 1) (store_db forged_store) =
    (Inr False, (store_db forged_store)\<lparr>last_changes := 0\<rparr>)"
  by (simp add: sample_engine_def forged_store_def insert_message_def andthen_def execute_def insert_body_def prepare_def
      andthen_bind_texts bind_text_def ref_insert_def args_message_insert first_step_def insert_row_def empty_refdb_def
      empty_tables_def fresh_def sample_message_def forged_message_def insert_tables_def upsert_row_def)

lemma forged_fields: "n_store forged_node = forged_store" "n_next_sequence forged_node = 1"
  "current_time_ms (n_clock forged_node) = 1" "n_peers forged_node = n_peers mesh_node"
  using mesh_fields(3) by (simp_all add: forged_node_def)

lemma forged_create: "\<exists>n'. create_local sample_env sample_config ''hello'' forged_node = (Inr (sample_message 1), n')"
proof -
  have t: "message_text (js sample_env) (local_message sample_config (n_next_sequence forged_node)
      (current_time_ms (n_clock forged_node)) ''hello'') = Inr (sample_message_text (sample_message 1))"
    by (simp only: forged_fields sample_local_message sample_env_fields sample_text)
  show ?thesis
    using forged_collision
    by (subst create_local_eq [OF t])
       (simp add: sample_local_message forged_fields Let_def add_def insert_and_remember_def del: One_nat_def)
qed

theorem forged_origin_loses_local_witness:
  "\<exists>n2 t cs. ingest_replica sample_env forged_message mesh_node = (Inr True, forged_node) \<and>
     create_local sample_env sample_config ''hello'' forged_node = (Inr (sample_message 1), n2) \<and>
     n_calls n2 = n_calls forged_node @ publish ''message'' t (n_events forged_node) @ cs \<and>
     posted (address mesh_peer) (http_port mesh_peer) ''/api/v1/replicate'' t cs \<and>
     sample_message 1 \<notin> set (t_messages (tables_of ref_view (n_store n2)))"
proof -
  obtain n2 where c: "create_local sample_env sample_config ''hello'' forged_node = (Inr (sample_message 1), n2)"
    using forged_create by blast
  have full: "\<not> answers_full (sql sample_env) (sample_message 1) (store_db (n_store forged_node))"
    unfolding forged_fields sample_env_fields sqlite_engine.insert_message_full [OF sample_engine_ok, symmetric] forged_collision
    by simp
  have peer: "mesh_peer \<in> set (active_peers (current_time_ms (n_clock forged_node)) (n_peers forged_node))"
    unfolding forged_fields
    by (simp add: mesh_node_def [THEN arg_cong, of n_peers] active_peers_def is_active_def mesh_peer_def peer_timeout_ms_def Let_def)
  have f: "origin forged_message = node_id (cfg_identity sample_config)" "sequence forged_message = n_next_sequence mesh_node"
      "message_id forged_message \<noteq> message_id_of (node_id (cfg_identity sample_config)) (n_next_sequence mesh_node)"
    by (simp_all add: forged_message_def sample_message_def sample_config_def message_id_of_def)
  have "json_library (js sample_env)" "sqlite_engine (sql sample_env) ref_view" "store_weak ref_view (n_store mesh_node)"
      "1 \<le> unat (n_next_sequence mesh_node)" "fresh forged_message (tables_of ref_view (n_store mesh_node))"
      "\<forall>h. outcome (ev sample_env) h = Sent"
    using sample_jsonc_library sample_engine_ok store_inv_weak [OF sample_store_inv] forged_fresh mesh_route(4) by simp_all
  from forged_origin_loses_local [OF this(1-4) f this(5) forged_delivery c full peer this(6)] c forged_delivery show ?thesis by blast
qed

end
