(* ===== verification/Les_Exchange.thy ===== *)
theory Les_Exchange
  imports Les_Mesh
begin

text \<open>
  A synchronization between two nodes, request by request: the summary that \<open>sync_service.cpp\<close>
  posts, the answer of \<open>sync_summary\<close> in \<open>http_api.cpp\<close>, the batch that \<open>send_missing\<close> posts when
  it reads this answer, and what \<open>sync_messages\<close> does with the batch.
\<close>

section \<open>The summary request\<close>

context json_library
begin

lemma summary_json_reads:
  assumes "make_json_object J = Inr o0"
  shows "json_is_object J (summary_json J r o0 o0) \<and> sync_header J ''sync_summary'' (summary_json J r o0 o0) \<and>
    object_get_ex J (summary_json J r o0 o0) ''origins'' = Some (origins_json J r o0) \<and>
    object_is_type J (origins_json J r o0) json_type_object"
proof -
  have o0: "object_is_type J o0 json_type_object" "\<forall>k. object_get_ex J o0 k = None"
    using assms new_object_ok by (auto simp: make_json_object_def split: option.splits)
  have obj: "object_is_type J (summary_json J r o0 o0) json_type_object"
    using add_members_is_object [OF o0(1)] by (simp add: summary_json_def)
  have "object_get_ex J (summary_json J r o0 o0) k =
      map_of [(''origins'', origins_json J r o0), (''type'', new_string J ''sync_summary''), (''protocol'', new_int J protocol_version)] k" for k
    using get_add_members [OF o0(1)] o0(2) by (simp add: summary_json_def)
  then show ?thesis
    using obj object_not_null [OF obj] origins_json_is_object [OF o0(1)]
      new_int_ok [of protocol_version] new_string_ok [of "''sync_summary''"]
    by (simp add: json_is_object_def sync_header_def protocol_version_def int32_range_def)
qed

lemma summary_text_total: "\<exists>t. serialize_json J v = Inr t"
  using serialize_total by blast

end

lemma sync_summary_cases:
  assumes "json_library (js W)" and "sync_summary W C q n = (x, n')"
  obtains (rejected) st reason b where "x = Inr ()" "n' = emit (send_json (ev W) (handle q) st reason b) n" "st \<noteq> HTTP_OK"
    | (thrown) e where "x = Inl e" "n_calls n' = n_calls n"
    | (summary) o0 r s t where "make_json_object (js W) = Inr o0" "sequence_summary (sql W) (n_store n) = (Inr r, s)"
        "serialize_json (js W) (summary_json (js W) r o0 o0) = Inr t" "x = Inr ()"
        "n' = emit (send_json (ev W) (handle q) HTTP_OK ''OK'' t) (n\<lparr>n_store := s\<rparr>)"
proof -
  obtain p n1 where p: "read_json_object W q max_request_bytes True (error_body ''invalid_sync_summary'') n = (p, n1)" by fastforce
  obtain o0 where o0: "make_json_object (js W) = Inr o0"
    using json_library.new_object_ok [OF assms(1)] by (auto simp: make_json_object_def split: option.splits)
  from p show thesis
  proof (cases rule: read_json_object_cases)
    case (answered st reason b)
    then show thesis using assms(2) p that(1) by (auto simp: sync_summary_def andthen_def)
  next
    case (thrown e)
    then show thesis using assms(2) p that(2) by (auto simp: sync_summary_def andthen_def)
  next
    case v: (got v)
    let ?ok = "sync_header (js W) ''sync_summary'' v \<and> (case object_get_ex (js W) v ''origins'' of None \<Rightarrow> False
       | Some origins \<Rightarrow> object_is_type (js W) origins json_type_object)"
    obtain y s where y: "sequence_summary (sql W) (n_store n) = (y, s)" by fastforce
    show thesis
    proof (cases ?ok)
      case False
      then show thesis
        using assms(2) p v that(1) [of HTTP_BADREQUEST "''Bad Request''"]
        by (auto simp: sync_summary_def andthen_def bad_request_def respond_def http_codes simp del: de_Morgan_conj)
    next
      case ok: True
      show thesis
      proof (cases y)
        case (Inl e)
        then show thesis
          using assms(2) p v ok o0 y that(2)
          by (auto simp: sync_summary_def andthen_def service_summary_def on_store_def lift_result_def)
      next
        case (Inr r)
        obtain t where t: "serialize_json (js W) (summary_json (js W) r o0 o0) = Inr t"
          using json_library.summary_text_total [OF assms(1)] by blast
        have "sync_summary W C q n = (Inr (), emit (send_json (ev W) (handle q) HTTP_OK ''OK'' t) (n\<lparr>n_store := s\<rparr>))"
          using p v ok o0 y Inr t
          by (simp add: sync_summary_def andthen_def service_summary_def on_store_def lift_result_def respond_def)
        then show thesis using assms(2) o0 y Inr t that(3) by auto
      qed
    qed
  qed
qed

text \<open>A summary request that is answered with 200 is answered with the summary of the node.\<close>

lemma summary_answer:
  assumes J: "json_library (js W)" and q: "command q = EVHTTP_REQ_POST" "request_path (ev W) q = ''/api/v1/sync/summary''"
    and buf: "evbuffer_ok (ev W) (handle q)"
    and a: "answered n (Some (HTTP_OK, t)) (handle_request W C q n)"
  obtains o0 r s where "make_json_object (js W) = Inr o0" and "sequence_summary (sql W) (n_store n) = (Inr r, s)"
    and "serialize_json (js W) (summary_json (js W) r o0 o0) = Inr t" and "n_store (handle_request W C q n) = s"
proof -
  obtain x n' where x: "sync_summary W C q n = (x, n')" by fastforce
  then have p: "process_request W C q n = (x, n')" using post_routes(3) [OF q] by metis
  from J x show thesis
  proof (cases rule: sync_summary_cases)
    case (rejected st reason b)
    then have "answered n (Some (st, b)) (handle_request W C q n)"
      using p answered_json [of n n "[]", OF _ _ buf] by (simp add: handle_request_def)
    then show thesis using answered_unique [OF a] rejected(3) by auto
  next
    case (thrown e)
    obtain st reason b where h: "st \<noteq> HTTP_OK" "handle_request W C q n = emit (send_json (ev W) (handle q) st reason b) n'"
      using handle_request_Inl [OF p [unfolded thrown(1)]] by blast
    then have "answered n (Some (st, b)) (handle_request W C q n)"
      using thrown(2) answered_json [of n' n "[]", OF _ _ buf] by simp
    then show thesis using answered_unique [OF a] h(1) by auto
  next
    case (summary o0 r s t')
    have h: "handle_request W C q n = emit (send_json (ev W) (handle q) HTTP_OK ''OK'' t') (n\<lparr>n_store := s\<rparr>)"
      using p summary by (simp add: handle_request_def)
    then have "answered n (Some (HTTP_OK, t')) (handle_request W C q n)"
      using answered_json [of "n\<lparr>n_store := s\<rparr>" n "[]", OF _ _ buf] by simp
    then have "t' = t" using answered_unique [OF a] by auto
    then show thesis using that summary h by simp
  qed
qed

text \<open>The timer of the synchronization posts the summary of the node to its active peers.\<close>

lemma synchronize_posts:
  assumes o0: "make_json_object (js W) = Inr o0" and r: "sequence_summary (sql W) (n_store n) = (Inr r, s)"
    and t: "serialize_json (js W) (summary_json (js W) r o0 o0) = Inr payload"
    and p: "p \<in> set (active_peers (current_time_ms (n_clock n)) (n_peers n))" and sent: "\<forall>h. outcome (ev W) h = Sent"
  shows "\<exists>cs. n_calls (sync_timer_callback W C n) = n_calls n @ cs \<and>
    posted (address p) (http_port p) ''/api/v1/sync/summary'' payload cs"
proof -
  obtain ds ctxs h where post: "post_all (summary_post (ev W) (cfg_local_address C) payload)
      (active_peers (current_time_ms (n_clock n)) (n_peers n)) (n_handles n) = (ds, ctxs, h)"
    by (metis prod_cases3)
  have calls: "n_calls (sync_timer_callback W C n) = n_calls n @ ds"
    using o0 r t post
    by (simp add: sync_timer_callback_def synchronize_def andthen_def lift_result_def on_store_def)
  obtain k ds1 ctx where "summary_post (ev W) (cfg_local_address C) payload p k = (ds1, ctx)" "set ds1 \<subseteq> set ds"
    using post_all_member [OF p post] by blast
  then have "posted (address p) (http_port p) ''/api/v1/sync/summary'' payload ds"
    using sent unfolding posted_def
    by (intro exI [of _ k]) (auto simp: summary_post_def post_request_def post_headers_def Let_def)
  then show ?thesis using calls by blast
qed

lemma sync_summary_runs:
  assumes J: "json_library (js W)" and o0: "make_json_object (js W) = Inr o0"
    and v: "serialize_json (js W) (summary_json (js W) r0 o0 o0) = Inr (input q)" "reads_back (js W) (summary_json (js W) r0 o0 o0)"
    and q: "has_json_content_type q" "copied q = int (length (input q))" "length (input q) \<le> max_request_bytes"
  shows "sync_summary W C q = andthen (on_store (sequence_summary (sql W))) (\<lambda>r.
    andthen (lift_result (serialize_json (js W) (summary_json (js W) r o0 o0))) (respond W q HTTP_OK ''OK''))"
proof -
  note r = json_library.summary_json_reads [OF J o0, of r0]
  have p: "parse_json (js W) (input q) = Inr \<lparr>parsed_object = summary_json (js W) r0 o0 o0, parsed_ok = True, parse_end = length (input q)\<rparr>"
    using v by (auto simp: reads_back_def)
  have ob: "json_is_object (js W) (summary_json (js W) r0 o0 o0)" using r by blast
  show ?thesis
    unfolding sync_summary_def read_json_object_ok [OF q p ob] service_summary_def
    using r o0 by (simp add: andthen_def lift_result_def fun_eq_iff)
qed

text \<open>
  C15: the summaries are exchanged: the timer of a node that could read its summary posts it to every
  active peer (libevent is assumed to accept the requests).  A peer that gets this text answers with
  its own summary, in which every origin has the bound that its database gives, or with an error
  status when its database could not be read; a summary of more than 4096 bytes it refuses with 413.
  json-c is assumed to read back the summary it printed.
\<close>

theorem summary_exchanged:
  assumes "json_library (js A)" and "js B = js A" and "make_json_object (js A) = Inr o0"
    and "sequence_summary (sql A) (n_store nA) = (Inr rA, sA)"
    and "p \<in> set (active_peers (current_time_ms (n_clock nA)) (n_peers nA))" and "\<forall>h. outcome (ev A) h = Sent"
    and "serialize_json (js A) (summary_json (js A) rA o0 o0) = Inr (input q)" and "reads_back (js A) (summary_json (js A) rA o0 o0)"
    and "content_type q = Some ''application/json''" and "copied q = int (length (input q))"
    and "command q = EVHTTP_REQ_POST" and "request_path (ev B) q = ''/api/v1/sync/summary''" and "evbuffer_ok (ev B) (handle q)"
  shows "(\<exists>cs. n_calls (sync_timer_callback A CA nA) = n_calls nA @ cs \<and>
      posted (address p) (http_port p) ''/api/v1/sync/summary'' (input q) cs) \<and>
    (if max_request_bytes < length (input q)
     then answered nB (Some (413, error_body ''request_too_large'')) (handle_request B CB q nB)
     else case sequence_summary (sql B) (n_store nB) of
       (Inr rB, sB) \<Rightarrow> \<exists>t. serialize_json (js A) (summary_json (js A) rB o0 o0) = Inr t \<and>
         answered nB (Some (HTTP_OK, t)) (handle_request B CB q nB) \<and> n_store (handle_request B CB q nB) = sB
     | (Inl e, sB) \<Rightarrow> \<exists>st b. st \<noteq> HTTP_OK \<and> answered nB (Some (st, b)) (handle_request B CB q nB))"
    (is "?posts \<and> (if _ then ?refused else ?answers)")
proof
  show ?posts by (rule synchronize_posts [OF assms(3-4,7,5,6)])
  have j: "has_json_content_type q" using assms(9) by (simp add: has_json_content_type_def c_str_def)
  have ?refused if "max_request_bytes < length (input q)"
    using that refused_answer(1) [OF assms(13)] too_large_request [OF assms(11) j, of B CB nB] by (simp add: assms(12))
  moreover have ?answers if len: "\<not> max_request_bytes < length (input q)"
  proof -
    have "sync_summary B CB q = andthen (on_store (sequence_summary (sql B))) (\<lambda>r.
        andthen (lift_result (serialize_json (js A) (summary_json (js A) r o0 o0))) (respond B q HTTP_OK ''OK''))"
      using assms(1-3,7,8,10) len j sync_summary_runs [of B o0 rA q CB] by simp
    then have p: "process_request B CB q = andthen (on_store (sequence_summary (sql B))) (\<lambda>r.
        andthen (lift_result (serialize_json (js A) (summary_json (js A) r o0 o0))) (respond B q HTTP_OK ''OK''))"
      using post_routes(3) [OF assms(11,12), of CB] by simp
    obtain x s where s: "sequence_summary (sql B) (n_store nB) = (x, s)" by fastforce
    show ?thesis
    proof (cases x)
      case (Inl e)
      have "process_request B CB q nB = (Inl e, nB\<lparr>n_store := s\<rparr>)"
        using p s Inl by (simp add: andthen_def on_store_def)
      then obtain st reason b where "st \<noteq> HTTP_OK"
          "handle_request B CB q nB = emit (send_json (ev B) (handle q) st reason b) (nB\<lparr>n_store := s\<rparr>)"
        using handle_request_Inl by blast
      then show ?thesis
        using s Inl answered_json [of "nB\<lparr>n_store := s\<rparr>" nB "[]", OF _ _ assms(13), of st b reason] by auto
    next
      case (Inr r)
      obtain t where t: "serialize_json (js A) (summary_json (js A) r o0 o0) = Inr t"
        using json_library.summary_text_total [OF assms(1)] by blast
      have "handle_request B CB q nB = emit (send_json (ev B) (handle q) HTTP_OK ''OK'' t) (nB\<lparr>n_store := s\<rparr>)"
        using p s Inr t by (simp add: handle_request_def andthen_def on_store_def lift_result_def respond_def)
      then show ?thesis
        using s Inr t answered_json [of "nB\<lparr>n_store := s\<rparr>" nB "[]", OF _ _ assms(13), of HTTP_OK t "''OK''"] by simp
    qed
  qed
  ultimately show "if max_request_bytes < length (input q) then ?refused else ?answers" by simp
qed

lemma sync_route:
  "command summary_request = EVHTTP_REQ_POST" "request_path sample_libevent summary_request = ''/api/v1/sync/summary''"
  "command batch_request = EVHTTP_REQ_POST" "request_path sample_libevent batch_request = ''/api/v1/sync/messages''"
  by (simp_all add: summary_request_def batch_request_def)

lemma mesh_active: "mesh_peer \<in> set (active_peers (current_time_ms (n_clock mesh_node)) (n_peers mesh_node))"
  by (simp add: mesh_node_def [THEN arg_cong, of n_peers] active_peers_def is_active_def mesh_peer_def peer_timeout_ms_def Let_def)

theorem summary_exchanged_witness:
  "(\<exists>cs. n_calls (sync_timer_callback sample_env sample_config mesh_node) = n_calls mesh_node @ cs \<and>
      posted (address mesh_peer) (http_port mesh_peer) ''/api/v1/sync/summary'' (json_print empty_summary) cs) \<and>
   answered sample_node (Some (HTTP_OK, (json_print empty_summary))) (handle_request sample_env sample_config summary_request sample_node) \<and>
   n_store (handle_request sample_env sample_config summary_request sample_node) = sample_store"
  using summary_exchanged [of sample_env sample_env "JObject []" mesh_node "[]" sample_store mesh_peer summary_request sample_config
      sample_node sample_config]
    sample_json text_lengths(1) empty_summary_def [symmetric] sample_empty_summary mesh_active mesh_route(3,4) sync_route
  by simp

section \<open>The answer to a summary at the sender\<close>

context json_library
begin

lemma items_total: "\<exists>items. map_result (message_to_json J) ms = Inr items"
  using build_object_ok by (intro map_result_all) (force simp: message_to_json_def)

end

text \<open>
  The calls of the sender when it reads a summary: nothing but the release of the connection when the
  summary lacks none of its messages, or the request with the batch of those it lacks.
\<close>

lemma summary_response_calls:
  assumes J: "json_library (js W)" and o0: "make_json_object (js W) = Inr o0" and a0: "make_json_array (js W) = Inr a0"
    and q: "serialize_json (js W) (summary_json (js W) r o0 o0) = Inr (input q)" "reads_back (js W) (summary_json (js W) r o0 o0)"
      "copied q = int (length (input q))" "length (input q) \<le> max_sync_request_bytes"
    and M: "M = missing (js W) (origins_json (js W) r o0) (messages (n_store n))"
    and items: "map_result (message_to_json (js W)) M = Inr items"
    and payload: "serialize_json (js W) (batch_json (js W) items o0 a0) = Inr payload"
  shows "n_calls (summary_response_callback W C (Some (HTTP_OK, q)) ctx n) = n_calls n @
    (if M = [] then []
     else fst (post_request (ev W) (cfg_local_address C) BatchResponse [(''Content-Type'', ''application/json'')]
       ''/api/v1/sync/messages'' payload (ctx_address ctx) (ctx_port ctx) (n_handles n))) @
    [ConnectionFree (ctx_connection ctx)]"
proof -
  let ?v = "summary_json (js W) r o0 o0"
  note v = json_library.summary_json_reads [OF J o0, of r]
  have p: "parse_json (js W) (input q) = Inr \<lparr>parsed_object = ?v, parsed_ok = True, parse_end = length (input q)\<rparr>"
    using q(1,2) by (auto simp: reads_back_def)
  have body: "read_request_body q max_sync_request_bytes = Inr (input q)"
    using q(3,4) by (simp add: read_request_body_def)
  have loop: "missing_loop (js W) (origins_json (js W) r o0) (messages (n_store n)) 0 = Inr items"
    using items by (simp add: M missing_loop_eq missing_def)
  have e: "items = [] \<longleftrightarrow> M = []" using map_result_Inr [OF items] by auto
  have "handle_summary_response W C q ctx n =
      (if M = [] then ret () n else send_batch W C (ctx_address ctx) (ctx_port ctx) payload n)"
    using v p body loop o0 a0 payload e
    by (simp add: handle_summary_response_def send_missing_def offer_missing_def andthen_def lift_result_def)
  then show ?thesis
    by (auto simp: summary_response_callback_def ret_def send_batch_def split: prod.splits)
qed

text \<open>An answer that is too large is not read, and nothing is posted.\<close>

lemma summary_response_too_large:
  "max_sync_request_bytes < length (input q) \<Longrightarrow>
   n_calls (summary_response_callback W C (Some (HTTP_OK, q)) ctx n) = n_calls n @ [ConnectionFree (ctx_connection ctx)]"
  by (simp add: summary_response_callback_def handle_summary_response_def read_request_body_def andthen_def)

text \<open>What a sender posts when it reads a summary is the batch of the messages the summary lacks.\<close>

lemma posted_batch:
  assumes J: "json_library (js W)" and o0: "make_json_object (js W) = Inr o0" and a0: "make_json_array (js W) = Inr a0"
    and q: "serialize_json (js W) (summary_json (js W) r o0 o0) = Inr (input q)" "reads_back (js W) (summary_json (js W) r o0 o0)"
      "copied q = int (length (input q))"
    and M: "M = missing (js W) (origins_json (js W) r o0) (messages (n_store n))"
    and cs: "n_calls (summary_response_callback W C (Some (HTTP_OK, q)) ctx n) = n_calls n @ cs"
    and posted: "posted addr port ''/api/v1/sync/messages'' txt cs"
  obtains items where "M \<noteq> []" and "map_result (message_to_json (js W)) M = Inr items"
    and "serialize_json (js W) (batch_json (js W) items o0 a0) = Inr txt"
proof -
  have free: "\<not> posted addr port path x [ConnectionFree c]" for path x c by (simp add: posted_def)
  have "length (input q) \<le> max_sync_request_bytes"
    using posted cs free summary_response_too_large [of q W C ctx n] by (auto simp: linorder_not_less [symmetric])
  moreover obtain items where items: "map_result (message_to_json (js W)) M = Inr items"
    using json_library.items_total [OF J] by blast
  moreover obtain payload where payload: "serialize_json (js W) (batch_json (js W) items o0 a0) = Inr payload"
    using json_library.summary_text_total [OF J] by blast
  ultimately have c: "cs = (if M = [] then []
     else fst (post_request (ev W) (cfg_local_address C) BatchResponse [(''Content-Type'', ''application/json'')]
       ''/api/v1/sync/messages'' payload (ctx_address ctx) (ctx_port ctx) (n_handles n))) @
      [ConnectionFree (ctx_connection ctx)]"
    using summary_response_calls [OF J o0 a0 q _ M items payload, of C ctx] cs by simp
  then have "M \<noteq> []" using posted free by auto
  moreover have "txt = payload"
    using posted c \<open>M \<noteq> []\<close> by (auto simp: posted_def post_request_def post_headers_def Let_def split: if_splits)
  ultimately show thesis using that items payload by blast
qed

section \<open>The batch at the receiver\<close>

lemma sync_loop_silent:
  assumes J: "json_library (js W)"
  shows "map (parse_message (js W)) items = map Some ms \<Longrightarrow> sync_loop W q items k n = (r, n') \<Longrightarrow>
    \<exists>cs. n_calls n' = n_calls n @ cs \<and> silent cs"
proof (induction items arbitrary: ms k n)
  case Nil
  then show ?case by (intro exI [of _ "[]"]) auto
next
  case (Cons item items)
  then obtain m ms2 where m: "parse_message (js W) item = Some m" "map (parse_message (js W)) items = map Some ms2"
    by (cases ms) auto
  obtain t where t: "message_text (js W) m = Inr t"
    using json_library.message_text_total [OF J] by blast
  obtain x n1 where i: "ingest_sync W m n = (x, n1)" by fastforce
  have c1: "\<exists>cs. n_calls n1 = n_calls n @ cs \<and> silent cs"
    using i silent_publish [of "''message''" t "n_events n"]
    by (auto simp: ingest_sync_eq [OF t] split: prod.splits sum.splits if_splits intro: exI [of _ "[]"])
  show ?case
  proof (cases x)
    case (Inl e)
    then show ?thesis using Cons.prems(2) m(1) i c1 by (auto simp: andthen_def)
  next
    case (Inr b)
    then have "\<exists>cs. n_calls n' = n_calls n1 @ cs \<and> silent cs"
      using Cons.IH [OF m(2)] Cons.prems(2) m(1) i by (auto simp: andthen_def)
    then show ?thesis using c1 by (elim exE conjE) (simp add: exI [of _ "_ @ _"])
  qed
qed

text \<open>A batch that is answered with 200 was added completely, and the answer counts the new messages.\<close>

lemma batch_answer:
  assumes J: "json_library (js W)" and ms: "list_all relayable ms" "length ms \<le> max_sync_batch_messages"
    and items: "map_result (message_to_json (js W)) ms = Inr items"
    and new: "make_json_object (js W) = Inr b0" "make_json_array (js W) = Inr a0"
    and txt': "serialize_json (js W) (batch_json (js W) items b0 a0) = Inr (input q)"
      "reads_back (js W) (batch_json (js W) items b0 a0)"
    and q: "has_json_content_type q" "copied q = int (length (input q))" "length (input q) \<le> max_sync_request_bytes"
    and route: "command q = EVHTTP_REQ_POST" "request_path (ev W) q = ''/api/v1/sync/messages''"
    and buf: "evbuffer_ok (ev W) (handle q)"
    and a: "answered n (Some (HTTP_OK, b)) (handle_request W C q n)"
  shows "\<exists>rs. add_all (sql W) ms (n_store n) = (rs, n_store (handle_request W C q n)) \<and>
    list_all (\<lambda>x. x \<in> range Inr) rs \<and> b = accepted_body (new_count rs)"
proof -
  have parsed: "map (parse_message (js W)) items = map Some ms"
    by (rule json_library.parse_items [OF J ms(1) items])
  have "length items \<le> max_sync_batch_messages" using map_result_Inr [OF items] ms(2) by simp
  then have run: "process_request W C q n = andthen (sync_loop W q items 0) (\<lambda>accepted.
      case accepted of None \<Rightarrow> ret () | Some k \<Rightarrow> respond W q HTTP_OK ''OK'' (accepted_body k)) n"
    using sync_messages_runs [OF J q new refl txt'] post_routes(4) [OF route, of C] by simp
  obtain r n1 where l: "sync_loop W q items 0 n = (r, n1)" by fastforce
  obtain cs where cs: "n_calls n1 = n_calls n @ cs" "silent cs"
    using sync_loop_silent [OF J parsed l] by blast
  obtain k rs where k: "k \<le> length ms" "add_all (sql W) (take k ms) (n_store n) = (rs, n_store n1)"
      "(\<exists>e. r = Inl e) \<or> r = Inr (Some (new_count rs)) \<and> k = length ms \<and> list_all (\<lambda>x. x \<in> range Inr) rs"
    using sync_loop_batch [OF J parsed l] .
  show ?thesis
    using k(3)
  proof
    assume "\<exists>e. r = Inl e"
    then obtain e where "process_request W C q n = (Inl e, n1)" using run l by (auto simp: andthen_def)
    then obtain st reason b' where h: "st \<noteq> HTTP_OK" "handle_request W C q n = emit (send_json (ev W) (handle q) st reason b') n1"
      using handle_request_Inl by blast
    then show ?thesis using answered_unique [OF a] answered_json [OF cs buf] by fastforce
  next
    assume r: "r = Inr (Some (new_count rs)) \<and> k = length ms \<and> list_all (\<lambda>x. x \<in> range Inr) rs"
    then have h: "handle_request W C q n = emit (send_json (ev W) (handle q) HTTP_OK ''OK'' (accepted_body (new_count rs))) n1"
      using run l by (simp add: handle_request_def andthen_def respond_def)
    then have "b = accepted_body (new_count rs)" using answered_unique [OF a] answered_json [OF cs buf] by fastforce
    then show ?thesis using h k(2) r by auto
  qed
qed

section \<open>The exchange of the examples\<close>

text \<open>The exchange of the examples: the sender has one message, the receiver none.\<close>

definition sample_context :: RequestContext where
  "sample_context = \<lparr>ctx_connection = 0, ctx_callback = SummaryResponse, ctx_address = ''10.0.0.2'', ctx_port = 7777\<rparr>"

definition exchange_node :: "refdb Node" where
  "exchange_node = sample_node\<lparr>n_store := sample_stored\<rparr>"

lemma exchange_messages: "messages (n_store exchange_node) = [sample_message 1]"
  by (simp add: exchange_node_def messages_def sample_stored_def)

lemma exchange_batch_answer:
  assumes "n_store n = sample_store"
  shows "answered n (Some (HTTP_OK, accepted_body 1)) (handle_request sample_env sample_config batch_request n) \<and>
    n_store (handle_request sample_env sample_config batch_request n) = sample_stored"
proof -
  have p: "parse_message (js sample_env) sample_item = Some (sample_message 1)"
    using json_library.parse_relayable [OF sample_jsonc_library sample_relayable sample_item_json] by simp
  obtain t where t: "message_text (js sample_env) (sample_message 1) = Inr t"
    using json_library.message_text_total [OF sample_jsonc_library] by auto
  obtain n' where l: "sync_loop sample_env batch_request [sample_item] 0 n = (Inr (Some 1), n')" "n_store n' = sample_stored"
    using p assms sample_add by (simp add: andthen_def ingest_sync_eq [OF t] del: One_nat_def)
  obtain cs where cs: "n_calls n' = n_calls n @ cs" "silent cs"
    using sync_loop_silent [of sample_env "[sample_item]" "[sample_message 1]", OF _ _ l(1)] p sample_jsonc_library by auto
  have "sync_messages sample_env sample_config batch_request = andthen (sync_loop sample_env batch_request [sample_item] 0)
      (\<lambda>accepted. case accepted of None \<Rightarrow> ret () | Some k \<Rightarrow> respond sample_env batch_request HTTP_OK ''OK'' (accepted_body k))"
    using sample_json text_lengths sample_batch_def [symmetric]
    by (intro sync_messages_runs [where b = "JObject []" and a = "JArray []" and v = sample_batch])
       (simp_all add: max_sync_request_bytes_def max_sync_batch_messages_def has_json_content_type_def c_str_def)
  then have "handle_request sample_env sample_config batch_request n =
      emit (send_json sample_libevent (handle batch_request) HTTP_OK ''OK'' (accepted_body 1)) n'"
    using post_routes(4) [of batch_request sample_env sample_config] sync_route l
    by (simp add: handle_request_def andthen_def respond_def)
  then show ?thesis using answered_json [OF cs] mesh_route(3) l(2) by simp
qed

lemma exchange_summary_answer:
  "answered sample_node (Some (HTTP_OK, (json_print empty_summary))) (handle_request sample_env sample_config summary_request sample_node) \<and>
   n_store (handle_request sample_env sample_config summary_request sample_node) = sample_store"
proof -
  have "sync_summary sample_env sample_config summary_request = andthen (on_store (sequence_summary sample_engine)) (\<lambda>r.
      andthen (lift_result (serialize_json sample_jsonc (summary_json sample_jsonc r (JObject []) (JObject []))))
        (respond sample_env summary_request HTTP_OK ''OK''))"
    using sync_summary_runs [of sample_env "JObject []" "[]" summary_request sample_config]
      sample_json text_lengths empty_summary_def [symmetric]
    by (simp add: max_request_bytes_def has_json_content_type_def c_str_def)
  then have "handle_request sample_env sample_config summary_request sample_node =
      emit (send_json sample_libevent (handle summary_request) HTTP_OK ''OK'' (json_print empty_summary)) (sample_node\<lparr>n_store := sample_store\<rparr>)"
    using post_routes(3) [of summary_request sample_env sample_config] sync_route sample_empty_summary sample_serialize empty_summary_def [symmetric]
    by (simp add: handle_request_def andthen_def on_store_def lift_result_def respond_def)
  then show ?thesis
    using answered_json [of "sample_node\<lparr>n_store := sample_store\<rparr>" sample_node "[]"] mesh_route(3) by simp
qed

end
