(* ===== verification/Les_Rounds.thy ===== *)
theory Les_Rounds
  imports Les_Exchange
begin

text \<open>
  The synchronization timer fires again and again.  An exchange is one round between two nodes, made
  of what the code of both does: the receiver answers a summary request, the sender reads the answer
  and posts a batch, the receiver adds the batch and answers it.  A round delivers the first 50
  messages above the bounds of the receiver; the rounds come to an end, and nothing above the bounds
  is left out when the sender holds the messages of each origin in ascending order.
\<close>

section \<open>An exchange\<close>

text \<open>A JSON text posted to a path of a node, as it arrives there.\<close>

definition json_post :: "('db, 'j) Env \<Rightarrow> HttpRequest \<Rightarrow> bytes \<Rightarrow> bool" where
  "json_post W q path \<longleftrightarrow>
     command q = EVHTTP_REQ_POST \<and> request_path (ev W) q = path \<and>
     content_type q = Some ''application/json'' \<and> copied q = int (length (input q))"

text \<open>
  A round in which the receiver \<open>B\<close> answers both requests with 200, the second one with the body \<open>b\<close>:
  \<open>q1\<close> is the summary request, \<open>q2\<close> its answer as the sender \<open>A\<close>, which holds the messages \<open>ms\<close>, reads
  it, and \<open>q3\<close> the request that \<open>A\<close> then posts.  A batch that is answered with another status, such
  as 413 when it exceeds 128 KiB, makes no exchange.
\<close>

inductive exchange :: "('a, 'j) Env \<Rightarrow> Config \<Rightarrow> ('db, 'j) Env \<Rightarrow> Config \<Rightarrow> ChatMessage list \<Rightarrow>
    'db Node \<Rightarrow> bytes \<Rightarrow> 'db Node \<Rightarrow> bool" for A CA B CB ms where
  exchangeI: "exchange A CA B CB ms nB b nB2"
    if "json_post B q1 ''/api/v1/sync/summary''" and "nB1 = handle_request B CB q1 nB"
      and "answered nB (Some (HTTP_OK, input q2)) nB1" and "copied q2 = int (length (input q2))"
      and "messages (n_store nA) = ms"
      and "n_calls (summary_response_callback A CA (Some (HTTP_OK, q2)) ctx nA) = n_calls nA @ cs"
      and "posted (ctx_address ctx) (ctx_port ctx) ''/api/v1/sync/messages'' (input q3) cs"
      and "json_post B q3 ''/api/v1/sync/messages''" and "nB2 = handle_request B CB q3 nB1"
      and "answered nB1 (Some (HTTP_OK, b)) nB2"

inductive_cases exchangeE: "exchange A CA B CB ms nB b nB2"

primrec exchanges :: "('a, 'j) Env \<Rightarrow> Config \<Rightarrow> ('db, 'j) Env \<Rightarrow> Config \<Rightarrow> ChatMessage list \<Rightarrow>
    nat \<Rightarrow> 'db Node \<Rightarrow> 'db Node \<Rightarrow> bool" where
  "exchanges A CA B CB ms 0 n n' \<longleftrightarrow> n' = n"
| "exchanges A CA B CB ms (Suc k) n n' \<longleftrightarrow> (\<exists>b n1. exchange A CA B CB ms n b n1 \<and> exchanges A CA B CB ms k n1 n')"

text \<open>What the exchange relies on of json-c: it reads back the summaries and batches it printed.\<close>

definition sync_texts :: "'j jsonc \<Rightarrow> bool" where
  "sync_texts J \<longleftrightarrow>
     (\<forall>o0 r. make_json_object J = Inr o0 \<longrightarrow> distinct (map fst r) \<longrightarrow> reads_back J (summary_json J r o0 o0)) \<and>
     (\<forall>o0 a0 ms items. make_json_object J = Inr o0 \<longrightarrow> make_json_array J = Inr a0 \<longrightarrow> list_all relayable ms \<longrightarrow>
        map_result (message_to_json J) ms = Inr items \<longrightarrow> reads_back J (batch_json J items o0 a0))"

text \<open>The messages of a list above the bounds of a database.\<close>

definition uncovered :: "tables \<Rightarrow> ChatMessage list \<Rightarrow> ChatMessage list" where
  "uncovered t ms = filter (\<lambda>m. \<not> covered t m) ms"

text \<open>In the table of the sender the numbers of each origin ascend.\<close>

definition ascending :: "ChatMessage list \<Rightarrow> bool" where
  "ascending ms \<longleftrightarrow> sorted_wrt (\<lambda>a b. origin a = origin b \<longrightarrow> sint (sequence a) < sint (sequence b)) ms"

section \<open>One round\<close>

lemma filter_split:
  assumes "\<And>x. Q x \<Longrightarrow> P x" and "\<And>x. x \<in> set (take n (filter P xs)) \<Longrightarrow> \<not> Q x" and "\<And>x. x \<in> set (drop n (filter P xs)) \<Longrightarrow> Q x"
  shows "filter Q xs = drop n (filter P xs)"
proof -
  have "filter Q xs = filter Q (filter P xs)"
    using assms(1) by (auto intro: filter_cong)
  also have "\<dots> = filter Q (take n (filter P xs)) @ filter Q (drop n (filter P xs))"
    by (metis append_take_drop_id filter_append)
  also have "filter Q (take n (filter P xs)) = []" using assms(2) by (simp add: filter_empty_conv)
  also have "filter Q (drop n (filter P xs)) = drop n (filter P xs)" using assms(3) by (simp add: filter_id_conv)
  finally show ?thesis by simp
qed

lemma covered_bump:
  assumes "map_of (t_sequences t') = foldl bump (map_of (t_sequences t)) M" and "1 \<le> sint (sequence m)"
  shows "covered t' m \<longleftrightarrow> covered t m \<or> (\<exists>x \<in> set M. origin x = origin m \<and> sint (sequence m) \<le> sint (sequence x))"
proof -
  let ?S = "numbers_of (origin m) (map_of (t_sequences t)) M"
  have f: "finite ?S" by (simp add: numbers_of_def)
  have "covered t' m \<longleftrightarrow> (\<exists>n \<in> ?S. sint (sequence m) \<le> n)"
    using assms f by (auto simp: covered_def foldl_bump Max_ge_iff split: option.splits)
  also have "\<dots> \<longleftrightarrow> covered t m \<or> (\<exists>x \<in> set M. origin x = origin m \<and> sint (sequence m) \<le> sint (sequence x))"
    using assms(2) by (auto simp: numbers_of_def covered_def split: option.splits)
  finally show ?thesis .
qed

lemma last_known_covered:
  assumes "json_library J" and "sqlite_engine E view" and "store_weak view s"
    and "sequence_summary E s = (Inr r, s1)" and "make_json_object J = Inr o0" and "list_all (\<lambda>(k, n). no_nul k) r"
    and "relayable m"
  shows "last_known J (origins_json J r o0) m < sequence m \<longleftrightarrow> \<not> covered (tables_of view s) m"
proof -
  let ?t = "tables_of view s"
  have v: "view (store_db s) = (?t, None)" "tables_ok ?t"
    using assms(3) by (auto simp: store_weak_def tables_of_def prod_eq_iff)
  have m: "no_nul (origin m)" "1 \<le> sint (sequence m)" "sequence m \<noteq> 0"
    using relayable_facts [OF assms(7)] sint_positive [of "sequence m"] assms(7)
    by (auto simp: relayable_def accepted_message_def)
  have r: "map_of r (origin m) = map_option word_of_int (map_of (t_sequences ?t) (origin m))"
    using sqlite_engine.summary_value [OF assms(2,4) v] by blast
  note b = summary_bounds [OF assms(1-6), of m]
  show ?thesis
  proof (cases "map_of (t_sequences ?t) (origin m)")
    case None
    then show ?thesis using b r m by (simp add: covered_def word_neq_0_conv)
  next
    case (Some l)
    then have l: "1 \<le> l" "l \<le> int64_max"
      using v(2) map_of_SomeD [OF Some] by (auto simp: tables_ok_def list_all_iff)
    then have "is_int64 l" by (simp add: is_int64_def int64_min_def)
    then have u: "int (unat (word_of_int l :: u64)) = l" using u64_of_int64(1) l(1) by simp
    have "word_of_int l < sequence m \<longleftrightarrow> l < sint (sequence m)"
      using u uint_of_positive_sint [OF m(2)] by (simp only: word_less_nat_alt flip: of_nat_less_iff [where 'a = int])
    then show ?thesis using b r m Some by (auto simp: covered_def)
  qed
qed

definition rounds_inv :: "('db \<Rightarrow> db_view) \<Rightarrow> ChatMessage list \<Rightarrow> 'db MessageStore \<Rightarrow> bool" where
  "rounds_inv view ms s \<longleftrightarrow>
     store_weak view s \<and> list_all (no_nul \<circ> fst) (t_sequences (tables_of view s)) \<and>
     consistent (set (t_messages (tables_of view s)) \<union> set ms)"

lemma missing_uncovered:
  assumes "json_library J" and "sqlite_engine E view" and "rounds_inv view ms s"
    and "sequence_summary E s = (Inr r, s1)" and "make_json_object J = Inr o0" and "list_all relayable ms"
  shows "missing J (origins_json J r o0) ms = take max_sync_batch_messages (uncovered (tables_of view s) ms)"
proof -
  have w: "store_weak view s" using assms(3) by (simp add: rounds_inv_def)
  have "\<forall>k \<in> fst ` set r. no_nul k"
    using assms(3) unfolding summary_origins [OF assms(2) w assms(4)] by (auto simp: rounds_inv_def list_all_iff)
  then have "list_all (\<lambda>(k, n). no_nul k) r" by (auto simp: list_all_iff)
  then show ?thesis
    using last_known_covered [OF assms(1,2) w assms(4,5)] assms(6)
    by (auto simp: missing_def uncovered_def list_all_iff intro!: arg_cong [where f = "take _"] filter_cong)
qed

lemma relayable_sint: "relayable m \<Longrightarrow> 1 \<le> sint (sequence m)"
  using relayable_facts [of m] sint_positive [of "sequence m"] by (auto simp: relayable_def accepted_message_def)

lemma sorted_wrt_take_drop:
  "sorted_wrt R xs \<Longrightarrow> x \<in> set (take n xs) \<Longrightarrow> y \<in> set (drop n xs) \<Longrightarrow> R x y"
  by (metis append_take_drop_id sorted_wrt_append)

lemma uncovered_after:
  assumes b: "map_of (t_sequences t') = foldl bump (map_of (t_sequences t)) (take n (uncovered t ms))"
    and "list_all relayable ms" and "ascending ms"
  shows "uncovered t' ms = drop n (uncovered t ms)"
  unfolding uncovered_def
proof (rule filter_split)
  let ?L = "filter (\<lambda>m. \<not> covered t m) ms"
  have rel: "1 \<le> sint (sequence m)" if "m \<in> set ms" for m
    using that assms(2) relayable_sint by (auto simp: list_all_iff)
  note cov = covered_bump [OF b [unfolded uncovered_def]]
  {
    fix x
    show "\<not> covered t' x \<Longrightarrow> \<not> covered t x"
      using covered_bump [OF b, of x] by (auto simp: covered_def split: option.splits)
  next
    fix x
    assume x: "x \<in> set (take n ?L)"
    then have "x \<in> set ms" by (auto dest: in_set_takeD)
    then show "\<not> \<not> covered t' x" using cov [OF rel] x by blast
  next
    fix x
    assume x: "x \<in> set (drop n ?L)"
    then have m: "x \<in> set ms" "\<not> covered t x" by (auto dest: in_set_dropD)
    have "sorted_wrt (\<lambda>a b. origin a = origin b \<longrightarrow> sint (sequence a) < sint (sequence b)) ?L"
      using assms(3) by (simp add: ascending_def sorted_wrt_filter)
    then have "\<not> (\<exists>y \<in> set (take n ?L). origin y = origin x \<and> sint (sequence x) \<le> sint (sequence y))"
      using sorted_wrt_take_drop [OF _ _ x] by fastforce
    then show "\<not> covered t' x" using cov [OF rel [OF m(1)]] m(2) by blast
  }
qed

text \<open>A round covers the first 50 messages that were not covered, and no other.\<close>

lemma round_step:
  assumes J: "json_library J" and E: "sqlite_engine E view" and inv: "rounds_inv view ms s"
    and r: "sequence_summary E s = (Inr r, s1)" and o0: "make_json_object J = Inr o0"
    and ms: "list_all relayable ms" "ascending ms"
    and a: "add_all E (missing J (origins_json J r o0) ms) s1 = (rs, s2)" "list_all (\<lambda>x. x \<in> range Inr) rs"
  shows "rounds_inv view ms s2 \<and>
    uncovered (tables_of view s2) ms = drop max_sync_batch_messages (uncovered (tables_of view s) ms)"
proof -
  let ?M = "missing J (origins_json J r o0) ms"
  have M: "?M = take max_sync_batch_messages (uncovered (tables_of view s) ms)"
    by (rule missing_uncovered [OF J E inv r o0 ms(1)])
  then have sub: "set ?M \<subseteq> set ms" by (auto simp: uncovered_def dest: in_set_takeD)
  then have st: "list_all storable ?M" and nn: "\<forall>m \<in> set ?M. no_nul (origin m)"
    using ms(1) relayable_facts by (auto simp: list_all_iff)
  have s: "store_weak view s" "list_all (no_nul \<circ> fst) (t_sequences (tables_of view s))"
      "consistent (set (t_messages (tables_of view s)) \<union> set ms)"
    using inv by (simp_all add: rounds_inv_def)
  have s1: "store_weak view s1" "tables_of view s1 = tables_of view s"
    using sqlite_engine.summary_keeps [OF E r] s(1) by (auto simp: store_weak_def tables_of_def)
  note h = sqlite_engine.history_ok [OF E s1(1) st a(1)] sqlite_engine.history_origins [OF E s1(1) st a(1)]
    sqlite_engine.history_rows [OF E s1(1) st a(1)]
  have "consistent (set (t_messages (tables_of view s1)) \<union> set ?M)"
    using sub by (intro consistent_subset [OF s(3)]) (auto simp: s1(2))
  from sqlite_engine.history_bumps [OF E s1(1) st this a]
  have "uncovered (tables_of view s2) ms = drop max_sync_batch_messages (uncovered (tables_of view s) ms)"
    unfolding M s1(2) by (rule uncovered_after [OF _ ms])
  moreover have "consistent (set (t_messages (tables_of view s2)) \<union> set ms)"
    using h(3) sub by (intro consistent_subset [OF s(3)]) (auto simp: s1(2))
  moreover have "\<forall>k \<in> fst ` set (t_sequences (tables_of view s2)). no_nul k"
    using h(2) s(2) nn unfolding s1(2) by (fastforce simp: list_all_iff)
  ultimately show ?thesis using h(1) by (simp add: rounds_inv_def list_all_iff)
qed

text \<open>A summary request and the batch it leads to: what the receiver adds, and what it answers.\<close>

lemma exchange_adds:
  assumes J: "json_library (js A)" and eq: "js B = js A" and txts: "sync_texts (js A)" and E: "sqlite_engine (sql B) view"
    and buf: "\<forall>h. evbuffer_ok (ev B) h" and ms: "list_all relayable ms" and inv: "rounds_inv view ms (n_store nB)"
    and ex: "exchange A CA B CB ms nB b nB2"
  obtains o0 r s1 rs where "make_json_object (js A) = Inr o0" and "sequence_summary (sql B) (n_store nB) = (Inr r, s1)"
    and "missing (js A) (origins_json (js A) r o0) ms \<noteq> []"
    and "add_all (sql B) (missing (js A) (origins_json (js A) r o0) ms) s1 = (rs, n_store nB2)"
    and "list_all (\<lambda>x. x \<in> range Inr) rs" and "b = accepted_body (new_count rs)"
proof -
  from ex obtain q1 q2 nA ctx cs q3 where
    a1: "json_post B q1 ''/api/v1/sync/summary''" "answered nB (Some (HTTP_OK, input q2)) (handle_request B CB q1 nB)"
    and q2: "copied q2 = int (length (input q2))" "messages (n_store nA) = ms"
      "n_calls (summary_response_callback A CA (Some (HTTP_OK, q2)) ctx nA) = n_calls nA @ cs"
      "posted (ctx_address ctx) (ctx_port ctx) ''/api/v1/sync/messages'' (input q3) cs"
    and a3: "json_post B q3 ''/api/v1/sync/messages''" "nB2 = handle_request B CB q3 (handle_request B CB q1 nB)"
      "answered (handle_request B CB q1 nB) (Some (HTTP_OK, b)) nB2"
    by (rule exchangeE) blast
  define nB1 where "nB1 = handle_request B CB q1 nB"
  note q1 = a1(1) nB1_def a1(2) [folded nB1_def] and q3 = a3 [folded nB1_def]
  have JB: "json_library (js B)" using J eq by simp
  have c: "command q1 = EVHTTP_REQ_POST" "request_path (ev B) q1 = ''/api/v1/sync/summary''" "evbuffer_ok (ev B) (handle q1)"
    using q1(1) buf by (auto simp: json_post_def)
  obtain o0 r s1 where s: "make_json_object (js B) = Inr o0" "sequence_summary (sql B) (n_store nB) = (Inr r, s1)"
      "serialize_json (js B) (summary_json (js B) r o0 o0) = Inr (input q2)" "n_store nB1 = s1"
    using summary_answer [OF JB c q1(3) [unfolded q1(2)]] q1(2) by metis
  obtain a0 where a0: "make_json_array (js A) = Inr a0"
    using json_library.new_array_ok [OF J] by (auto simp: make_json_array_def split: option.splits)
  have w: "view (store_db (n_store nB)) = (tables_of view (n_store nB), None)" "tables_ok (tables_of view (n_store nB))"
    using inv by (auto simp: rounds_inv_def store_weak_def tables_of_def prod_eq_iff)
  have rb: "reads_back (js A) (summary_json (js A) r o0 o0)"
    using txts s(1) eq sqlite_engine.summary_value [OF E s(2) w] by (simp add: sync_texts_def)
  let ?M = "missing (js A) (origins_json (js A) r o0) ms"
  have M: "?M = missing (js A) (origins_json (js A) r o0) (messages (n_store nA))" by (simp add: q2(2))
  obtain items where items: "?M \<noteq> []" "map_result (message_to_json (js A)) ?M = Inr items"
      "serialize_json (js A) (batch_json (js A) items o0 a0) = Inr (input q3)"
    using posted_batch [OF J _ a0 _ rb q2(1) M q2(3,4)] s(1,3) eq by auto
  have rel: "list_all relayable ?M" "length ?M \<le> max_sync_batch_messages"
    using ms by (auto simp: missing_def list_all_iff dest: in_set_takeD)
  have d: "command q3 = EVHTTP_REQ_POST" "request_path (ev B) q3 = ''/api/v1/sync/messages''" "has_json_content_type q3"
      "copied q3 = int (length (input q3))" "evbuffer_ok (ev B) (handle q3)"
    using q3(1) buf by (auto simp: json_post_def has_json_content_type_def c_str_def)
  have len: "length (input q3) \<le> max_sync_request_bytes"
  proof (rule ccontr)
    assume "\<not> ?thesis"
    then have "nB2 = refused_too_large B q3 nB1"
      unfolding q3(2) by (intro too_large_request [OF d(1,3)]) (simp add: d(2))
    then show False using answered_unique [OF q3(3)] refused_answer(1) [OF d(5), of nB1] by (fastforce simp: HTTP_OK_def)
  qed
  have rb3: "reads_back (js B) (batch_json (js B) items o0 a0)"
    using txts s(1) a0 rel(1) items(2) eq unfolding sync_texts_def by auto
  obtain rs where "add_all (sql B) ?M (n_store nB1) = (rs, n_store nB2)" "list_all (\<lambda>x. x \<in> range Inr) rs"
      "b = accepted_body (new_count rs)"
    using batch_answer [OF JB rel _ _ _ _ rb3 d(3,4) len d(1,2,5) q3(3) [unfolded q3(2)]] items(2,3) s(1) a0 eq q3(2) by auto
  then show thesis using that s eq items(1) by simp
qed

lemma batch_all_new:
  assumes J: "json_library J" and E: "sqlite_engine E view" and inv: "rounds_inv view ms s"
    and r: "sequence_summary E s = (Inr r, s1)" and o0: "make_json_object J = Inr o0"
    and ms: "list_all relayable ms" "ascending ms"
    and a: "add_all E (missing J (origins_json J r o0) ms) s1 = (rs, s2)" "list_all (\<lambda>x. x \<in> range Inr) rs"
  shows "rs = map (\<lambda>_. Inr True) (missing J (origins_json J r o0) ms)"
proof -
  let ?M = "missing J (origins_json J r o0) ms"
  have M: "?M = take max_sync_batch_messages (uncovered (tables_of view s) ms)"
    by (rule missing_uncovered [OF J E inv r o0 ms(1)])
  have s: "store_weak view s" "consistent (set (t_messages (tables_of view s)) \<union> set ms)"
    using inv by (simp_all add: rounds_inv_def)
  have s1: "store_weak view s1" "tables_of view s1 = tables_of view s"
    using sqlite_engine.summary_keeps [OF E r] s(1) by (auto simp: store_weak_def tables_of_def)
  have sub: "set ?M \<subseteq> set ms" by (auto simp: M uncovered_def dest: in_set_takeD)
  have "distinct ms"
    using ms(2) unfolding ascending_def distinct_conv_nth sorted_wrt_iff_nth_less by (metis nat_neq_iff order_less_irrefl)
  then have "distinct ?M" by (simp add: M uncovered_def)
  moreover have "list_all storable ?M" using ms(1) sub relayable_facts by (auto simp: list_all_iff)
  moreover have "set ?M \<inter> set (t_messages (tables_of view s1)) = {}"
    using weak_stored_covered [OF s(1)] by (auto simp: M s1(2) uncovered_def dest: in_set_takeD)
  moreover have "consistent (set (t_messages (tables_of view s1)) \<union> set ?M)"
    using sub by (intro consistent_subset [OF s(2)]) (auto simp: s1(2))
  ultimately show ?thesis using a by (intro sqlite_engine.history_new [OF E s1(1)])
qed

lemma exchange_step:
  assumes J: "json_library (js A)" and eq: "js B = js A" and txts: "sync_texts (js A)" and E: "sqlite_engine (sql B) view"
    and buf: "\<forall>h. evbuffer_ok (ev B) h" and ms: "list_all relayable ms" "ascending ms" and inv: "rounds_inv view ms (n_store nB)"
    and ex: "exchange A CA B CB ms nB b nB2"
  shows "uncovered (tables_of view (n_store nB)) ms \<noteq> [] \<and>
    b = accepted_body (min max_sync_batch_messages (length (uncovered (tables_of view (n_store nB)) ms))) \<and>
    uncovered (tables_of view (n_store nB2)) ms = drop max_sync_batch_messages (uncovered (tables_of view (n_store nB)) ms) \<and>
    rounds_inv view ms (n_store nB2)"
proof -
  obtain o0 r s1 rs where o0: "make_json_object (js A) = Inr o0" and r: "sequence_summary (sql B) (n_store nB) = (Inr r, s1)"
      and M: "missing (js A) (origins_json (js A) r o0) ms \<noteq> []"
      and a: "add_all (sql B) (missing (js A) (origins_json (js A) r o0) ms) s1 = (rs, n_store nB2)" "list_all (\<lambda>x. x \<in> range Inr) rs"
      and b: "b = accepted_body (new_count rs)"
    by (rule exchange_adds [OF J eq txts E buf ms(1) inv ex])
  have "new_count (map (\<lambda>_. Inr True) xs) = length xs" for xs :: "ChatMessage list" by (induction xs) auto
  then have "b = accepted_body (length (missing (js A) (origins_json (js A) r o0) ms))"
    using b batch_all_new [OF J E inv r o0 ms a] by simp
  then show ?thesis
    using round_step [OF J E inv r o0 ms a] M missing_uncovered [OF J E inv r o0 ms(1)] by (auto simp: min.commute)
qed

section \<open>The rounds come to an end\<close>

lemma exchanges_drain:
  assumes "json_library (js A)" and "js B = js A" and "sync_texts (js A)" and "sqlite_engine (sql B) view"
    and "\<forall>h. evbuffer_ok (ev B) h" and "list_all relayable ms" and "ascending ms"
  shows "rounds_inv view ms (n_store n) \<Longrightarrow> exchanges A CA B CB ms k n n' \<Longrightarrow>
    rounds_inv view ms (n_store n') \<and>
    uncovered (tables_of view (n_store n')) ms = drop (max_sync_batch_messages * k) (uncovered (tables_of view (n_store n)) ms) \<and>
    (0 < k \<longrightarrow> max_sync_batch_messages * (k - 1) < length (uncovered (tables_of view (n_store n)) ms))"
proof (induction k arbitrary: n)
  case 0
  then show ?case by simp
next
  case (Suc k)
  let ?U = "uncovered (tables_of view (n_store n)) ms"
  obtain b n1 where e: "exchange A CA B CB ms n b n1" "exchanges A CA B CB ms k n1 n'" using Suc.prems(2) by auto
  note step = exchange_step [OF assms Suc.prems(1) e(1)]
  note ih = Suc.IH [OF _ e(2)]
  have "max_sync_batch_messages * k < length ?U"
    using step ih by (cases k) auto
  then show ?case using step ih by (simp add: add.commute)
qed

text \<open>
  C11: one round of synchronization makes the progress it can: in an exchange answered with 200 there
  was something above the bounds of the receiver; the batch holds the first 50 of these messages in
  the order of the sender, the receiver found all of them new, which its answer counts, and afterwards
  exactly these are no longer above its bounds.  Assumed are: the sender holds the messages of each
  origin in ascending order and all of them pass \<open>parse_message\<close> with ids free of zero bytes
  (\<open>ascending\<close>, \<open>relayable\<close>); they are consistent with the rows of the receiver, whose origins have no
  zero bytes (\<open>rounds_inv\<close>); json-c reads back what it printed (\<open>sync_texts\<close>).  Messages below the bounds
  that the receiver lacks are not offered.
\<close>

theorem sync_exchange_converges:
  assumes "json_library (js A)" and "js B = js A" and "sync_texts (js A)" and "sqlite_engine (sql B) view"
    and "\<forall>h. evbuffer_ok (ev B) h" and "list_all relayable ms" and "ascending ms" and "rounds_inv view ms (n_store nB)"
    and "exchange A CA B CB ms nB b nB2"
  shows "uncovered (tables_of view (n_store nB)) ms \<noteq> [] \<and>
    b = accepted_body (min max_sync_batch_messages (length (uncovered (tables_of view (n_store nB)) ms))) \<and>
    uncovered (tables_of view (n_store nB2)) ms = drop max_sync_batch_messages (uncovered (tables_of view (n_store nB)) ms) \<and>
    rounds_inv view ms (n_store nB2)"
  using assms by (rule exchange_step)

text \<open>A sender that reads the summary of a receiver whose bounds cover its messages posts nothing.\<close>

lemma covered_posts_nothing:
  assumes "json_library (js A)" and "js B = js A" and "sync_texts (js A)" and "sqlite_engine (sql B) view"
    and "\<forall>h. evbuffer_ok (ev B) h" and "list_all relayable ms" and "rounds_inv view ms (n_store n)"
    and u: "uncovered (tables_of view (n_store n)) ms = []"
    and q: "json_post B q1 ''/api/v1/sync/summary''" "answered n (Some (HTTP_OK, input q2)) (handle_request B CB q1 n)"
      "copied q2 = int (length (input q2))" "messages (n_store nA) = ms"
  shows "n_calls (summary_response_callback A CA (Some (HTTP_OK, q2)) ctx nA) = n_calls nA @ [ConnectionFree (ctx_connection ctx)]"
proof (cases "max_sync_request_bytes < length (input q2)")
  case True
  then show ?thesis by (rule summary_response_too_large)
next
  case False
  have c: "command q1 = EVHTTP_REQ_POST" "request_path (ev B) q1 = ''/api/v1/sync/summary''" "evbuffer_ok (ev B) (handle q1)"
    using assms(5) q(1) by (auto simp: json_post_def)
  have "json_library (js B)" using assms(1,2) by simp
  then obtain o0 r s1 where s: "make_json_object (js A) = Inr o0" "sequence_summary (sql B) (n_store n) = (Inr r, s1)"
      "serialize_json (js A) (summary_json (js A) r o0 o0) = Inr (input q2)"
    using summary_answer [OF _ c q(2)] assms(2) by metis
  have w: "view (store_db (n_store n)) = (tables_of view (n_store n), None)" "tables_ok (tables_of view (n_store n))"
    using assms(7) by (auto simp: rounds_inv_def store_weak_def tables_of_def prod_eq_iff)
  have rb: "reads_back (js A) (summary_json (js A) r o0 o0)"
    using assms(3) s(1) sqlite_engine.summary_value [OF assms(4) s(2) w] by (simp add: sync_texts_def)
  have "missing (js A) (origins_json (js A) r o0) (messages (n_store nA)) = []"
    using missing_uncovered [OF assms(1,4,7) s(2,1) assms(6)] u q(4) by simp
  moreover obtain a0 where "make_json_array (js A) = Inr a0"
    using json_library.new_array_ok [OF assms(1)] by (auto simp: make_json_array_def split: option.splits)
  moreover obtain payload where "serialize_json (js A) (batch_json (js A) [] o0 a0) = Inr payload"
    using json_library.summary_text_total [OF assms(1)] by blast
  ultimately show ?thesis
    using summary_response_calls [OF assms(1) s(1) _ s(3) rb q(3) _ refl, of a0 nA "[]" payload CA ctx] False by simp
qed

text \<open>
  C12: repeated synchronization comes to an end and delivers everything above the bounds: there are at
  most as many successive exchanges answered with 200 as batches of 50 are needed for the messages
  above the bounds of the receiver; \<open>k\<close> of them cover the first 50 times \<open>k\<close> of these messages, and
  no other; and once all are covered and the receiver answers another summary request with 200,
  a sender with these messages that reads the answer posts nothing.  The assumptions are those of the
  single round.
\<close>

theorem rounds_terminate:
  assumes "json_library (js A)" and "js B = js A" and "sync_texts (js A)" and "sqlite_engine (sql B) view"
    and "\<forall>h. evbuffer_ok (ev B) h" and "list_all relayable ms" and "ascending ms" and "rounds_inv view ms (n_store n)"
    and "exchanges A CA B CB ms k n n'"
  shows "max_sync_batch_messages * k < length (uncovered (tables_of view (n_store n)) ms) + max_sync_batch_messages \<and>
    uncovered (tables_of view (n_store n')) ms = drop (max_sync_batch_messages * k) (uncovered (tables_of view (n_store n)) ms) \<and>
    (\<forall>q1 q2 nA ctx. length (uncovered (tables_of view (n_store n)) ms) \<le> max_sync_batch_messages * k \<and>
        json_post B q1 ''/api/v1/sync/summary'' \<and> answered n' (Some (HTTP_OK, input q2)) (handle_request B CB q1 n') \<and>
        copied q2 = int (length (input q2)) \<and> messages (n_store nA) = ms \<longrightarrow>
      n_calls (summary_response_callback A CA (Some (HTTP_OK, q2)) ctx nA) = n_calls nA @ [ConnectionFree (ctx_connection ctx)])"
proof (intro conjI allI impI)
  note d = exchanges_drain [OF assms]
  show "max_sync_batch_messages * k < length (uncovered (tables_of view (n_store n)) ms) + max_sync_batch_messages"
    using d by (cases k) (auto simp: max_sync_batch_messages_def)
  show "uncovered (tables_of view (n_store n')) ms = drop (max_sync_batch_messages * k) (uncovered (tables_of view (n_store n)) ms)"
    using d by simp
  show "n_calls (summary_response_callback A CA (Some (HTTP_OK, q2)) ctx nA) = n_calls nA @ [ConnectionFree (ctx_connection ctx)]"
    if "length (uncovered (tables_of view (n_store n)) ms) \<le> max_sync_batch_messages * k \<and>
      json_post B q1 ''/api/v1/sync/summary'' \<and> answered n' (Some (HTTP_OK, input q2)) (handle_request B CB q1 n') \<and>
      copied q2 = int (length (input q2)) \<and> messages (n_store nA) = ms" for q1 q2 nA ctx
    using that d by (intro covered_posts_nothing [OF assms(1-6)]) auto
qed

section \<open>Examples\<close>

text \<open>The text format of the examples reads back every summary and every batch.\<close>

lemma wf_object_add:
  assumes "wf_json (JObject ms)" and "wf_json v"
  shows "\<exists>ms'. json_object_add (JObject ms) k v = JObject ms' \<and> wf_json (JObject ms')"
  using assms
  by (auto simp: fst_insert_or_assign set_insert_or_assign split: if_splits)

lemma wf_members:
  "wf_json (JObject ms) \<Longrightarrow> list_all (\<lambda>(k, v). wf_json v) kvs \<Longrightarrow>
   \<exists>ms'. add_members sample_jsonc kvs (JObject ms) = JObject ms' \<and> wf_json (JObject ms')"
proof (induction kvs arbitrary: ms)
  case Nil
  then show ?case by (simp add: add_members_def)
next
  case (Cons kv kvs)
  obtain k v where kv: "kv = (k, v)" by fastforce
  obtain ms1 where ms1: "json_object_add (JObject ms) k v = JObject ms1" "wf_json (JObject ms1)"
    using wf_object_add [of ms v k] Cons.prems kv by auto
  from Cons.IH [OF ms1(2)] Cons.prems(2) kv ms1(1) show ?case
    by (simp add: add_members_def sample_jsonc_def json_values_def)
qed

lemma sint_is_int64: "is_int64 (sint (n :: u64))"
  using sint_ge [of n] sint_lt [of n] by (simp add: is_int64_def int64_min_def int64_max_def)

lemma sample_build_wf: "list_all (\<lambda>(k, v). wf_json v) kvs \<Longrightarrow> wf_json (add_members sample_jsonc kvs (JObject []))"
  using wf_members [of "[]" kvs] by auto

lemma sample_values [simp]:
  "new_int sample_jsonc = JInt" "new_int64 sample_jsonc = JInt" "new_string sample_jsonc = JString"
  "new_string_len sample_jsonc = JString" "array_add sample_jsonc = json_array_add"
  by (simp_all add: sample_jsonc_def json_values_def)

lemma wf_summary: "wf_json (summary_json sample_jsonc r (JObject []) (JObject []))"
proof -
  have "wf_json (origins_json sample_jsonc r (JObject []))"
    unfolding origins_json_def by (rule sample_build_wf) (auto simp: list_all_iff sint_is_int64)
  then show ?thesis
    unfolding summary_json_def
    by (intro sample_build_wf) (simp add: protocol_version_def is_int64_def int64_min_def int64_max_def)
qed

lemma wf_item: "relayable m \<Longrightarrow> message_to_json sample_jsonc m = Inr v \<Longrightarrow> wf_json v"
  by (auto simp: message_to_json_def build_object_def sample_new message_members_def relayable_def accepted_message_def
      sint_is_int64 intro!: sample_build_wf)

lemma wf_array: "list_all wf_json vs \<Longrightarrow> wf_json (JArray xs) \<Longrightarrow> wf_json (fold (\<lambda>v a. json_array_add a v) vs (JArray xs))"
  by (induction vs arbitrary: xs) auto

lemma wf_batch:
  assumes "list_all relayable ms" and "map_result (message_to_json sample_jsonc) ms = Inr items"
  shows "wf_json (batch_json sample_jsonc items (JObject []) (JArray []))"
proof -
  have "list_all wf_json items"
    using assms
  proof (induction ms arbitrary: items)
    case Nil
    then show ?case by simp
  next
    case (Cons m ms)
    then show ?case using wf_item by (auto simp: result_bind_def split: sum.splits)
  qed
  from wf_array [OF this, of "[]"] show ?thesis
    unfolding batch_json_def
    by (intro sample_build_wf) (simp add: protocol_version_def is_int64_def int64_min_def int64_max_def)
qed

lemma sample_sync_texts: "sync_texts sample_jsonc"
  using wf_summary wf_batch sample_reads_back unfolding sync_texts_def sample_new by auto

lemma sample_exchange:
  "exchange sample_env sample_config sample_env sample_config [sample_message 1] sample_node (accepted_body 1)
     (handle_request sample_env sample_config batch_request (handle_request sample_env sample_config summary_request sample_node))"
proof -
  let ?n1 = "handle_request sample_env sample_config summary_request sample_node"
  have s: "answered sample_node (Some (HTTP_OK, input summary_request)) ?n1" "n_store ?n1 = sample_store"
    using exchange_summary_answer by simp_all
  have p: "json_post sample_env summary_request ''/api/v1/sync/summary''" "json_post sample_env batch_request ''/api/v1/sync/messages''"
    using sync_route by (simp_all add: json_post_def)
  have calls: "n_calls (summary_response_callback sample_env sample_config (Some (HTTP_OK, summary_request)) sample_context exchange_node) =
      n_calls exchange_node @ (if [sample_message 1] = [] then []
     else fst (post_request (ev sample_env) (cfg_local_address sample_config) BatchResponse [(''Content-Type'', ''application/json'')]
       ''/api/v1/sync/messages'' (json_print sample_batch) (ctx_address sample_context) (ctx_port sample_context) (n_handles exchange_node))) @
    [ConnectionFree (ctx_connection sample_context)]"
    using sample_json text_lengths empty_summary_def [symmetric] sample_batch_def [symmetric] sample_missing exchange_messages
    by (intro summary_response_calls [where ?o0.0 = "JObject []" and ?a0.0 = "JArray []" and r = "[]" and items = "[sample_item]"])
       (simp_all add: max_sync_request_bytes_def)
  show ?thesis
  proof (rule exchangeI [OF p(1) refl s(1) _ exchange_messages calls _ p(2) refl])
    show "answered ?n1 (Some (HTTP_OK, accepted_body 1)) (handle_request sample_env sample_config batch_request ?n1)"
      using exchange_batch_answer [OF s(2)] by simp
    show "copied summary_request = int (length (input summary_request))" using p(1) by (simp add: json_post_def)
  qed (auto simp: posted_def post_request_def post_headers_def Let_def mesh_route(4))
qed

lemma sample_round:
  "list_all relayable [sample_message 1]" "ascending [sample_message 1]"
  "rounds_inv ref_view [sample_message 1] (n_store sample_node)"
  "uncovered (tables_of ref_view (n_store sample_node)) [sample_message 1] = [sample_message 1]"
  using sample_relayable store_inv_weak [OF sample_store_inv]
  by (simp_all add: ascending_def rounds_inv_def uncovered_def covered_def consistent_def tables_of_def sample_store_def
      ref_view_def empty_refdb_def empty_tables_def)

lemma sample_sides: "json_library (js sample_env)" "sync_texts (js sample_env)" "sqlite_engine (sql sample_env) ref_view"
  "\<forall>h. evbuffer_ok (ev sample_env) h"
  using sample_jsonc_library sample_sync_texts sample_engine_ok mesh_route(3) by simp_all

definition sample_synced :: "refdb Node" where
  "sample_synced = handle_request sample_env sample_config batch_request
     (handle_request sample_env sample_config summary_request sample_node)"

theorem sync_exchange_converges_witness:
  "exchange sample_env sample_config sample_env sample_config [sample_message 1] sample_node (accepted_body 1) sample_synced \<and>
   uncovered (tables_of ref_view (n_store sample_synced)) [sample_message 1] = []"
  using sync_exchange_converges [OF sample_sides(1) refl sample_sides(2-4) sample_round(1-3) sample_exchange] sample_exchange
    sample_round(4)
  by (simp add: sample_synced_def max_sync_batch_messages_def)

lemma sample_exchanges: "exchanges sample_env sample_config sample_env sample_config [sample_message 1] 1 sample_node sample_synced"
  using sample_exchange by (auto simp: sample_synced_def)

lemma synced_summary_answer:
  "\<exists>q2 :: HttpRequest. answered sample_synced (Some (HTTP_OK, input q2)) (handle_request sample_env sample_config summary_request sample_synced) \<and>
     copied q2 = int (length (input q2))"
proof -
  have st: "n_store sample_synced = sample_stored"
    using exchange_batch_answer exchange_summary_answer by (simp add: sample_synced_def)
  obtain t where t: "serialize_json sample_jsonc (summary_json sample_jsonc [(''node-a'', 1)] (JObject []) (JObject [])) = Inr t"
    by (simp add: sample_serialize)
  have "sync_summary sample_env sample_config summary_request = andthen (on_store (sequence_summary sample_engine)) (\<lambda>r.
      andthen (lift_result (serialize_json sample_jsonc (summary_json sample_jsonc r (JObject []) (JObject []))))
        (respond sample_env summary_request HTTP_OK ''OK''))"
    using sync_summary_runs [of sample_env "JObject []" "[]" summary_request sample_config]
      sample_json text_lengths empty_summary_def [symmetric]
    by (simp add: max_request_bytes_def has_json_content_type_def c_str_def)
  then have "handle_request sample_env sample_config summary_request sample_synced =
      emit (send_json sample_libevent (handle summary_request) HTTP_OK ''OK'' t) (sample_synced\<lparr>n_store := sample_stored\<rparr>)"
    using post_routes(3) [of summary_request sample_env sample_config] sync_route st sample_summary t
    by (simp add: handle_request_def andthen_def on_store_def lift_result_def respond_def)
  then have "answered sample_synced (Some (HTTP_OK, t)) (handle_request sample_env sample_config summary_request sample_synced)"
    using answered_json [of "sample_synced\<lparr>n_store := sample_stored\<rparr>" sample_synced "[]"] mesh_route(3) by simp
  moreover have "input (sample_request EVHTTP_REQ_POST [] t) = t"
      "copied (sample_request EVHTTP_REQ_POST [] t) = int (length t)"
    by (simp_all add: sample_request_def)
  ultimately show ?thesis by metis
qed

theorem rounds_terminate_witness:
  "\<exists>q2 :: HttpRequest. exchanges sample_env sample_config sample_env sample_config [sample_message 1] 1 sample_node sample_synced \<and>
     answered sample_synced (Some (HTTP_OK, input q2)) (handle_request sample_env sample_config summary_request sample_synced) \<and>
     n_calls (summary_response_callback sample_env sample_config (Some (HTTP_OK, q2)) sample_context exchange_node) =
       n_calls exchange_node @ [ConnectionFree (ctx_connection sample_context)]"
proof -
  obtain q2 :: HttpRequest where q2: "answered sample_synced (Some (HTTP_OK, input q2)) (handle_request sample_env sample_config summary_request sample_synced)"
      "copied q2 = int (length (input q2))"
    using synced_summary_answer by blast
  have p: "json_post sample_env summary_request ''/api/v1/sync/summary''"
    using sync_route by (simp add: json_post_def)
  have "length (uncovered (tables_of ref_view (n_store sample_node)) [sample_message 1]) \<le> max_sync_batch_messages * 1"
    unfolding sample_round(4) by (simp add: max_sync_batch_messages_def)
  with rounds_terminate [OF sample_sides(1) refl sample_sides(2-4) sample_round(1-3) sample_exchanges] p q2 exchange_messages
  have "n_calls (summary_response_callback sample_env sample_config (Some (HTTP_OK, q2)) sample_context exchange_node) =
       n_calls exchange_node @ [ConnectionFree (ctx_connection sample_context)]" by blast
  then show ?thesis using q2(1) sample_exchanges by blast
qed

end
