(* ===== verification/Les_Lifecycle.thy ===== *)
theory Les_Lifecycle
  imports Les_App
begin

text \<open>
  The life of the process: \<open>main\<close> and \<open>print_help\<close> (\<open>main.cpp\<close>), \<open>Application::run\<close> and the
  destructor (\<open>application.cpp\<close>), and the resources the constructors acquire.  A constructor that
  throws releases what it holds itself; the members of \<open>Application\<close> that were already
  constructed are then destroyed in the reverse order of their declaration.  Both are given as the
  trace of the acquisitions and releases.
\<close>

section \<open>Resources\<close>

datatype resource = EventBase | Database | Socket int | ReceiveEvent | AnnounceEvent | TimerEvent | HttpServer

datatype life = Acquire resource | Release resource

text \<open>\<open>MessageStore\<close>: a handle that was opened is closed when the rest of the constructor throws.\<close>

definition store_life :: "'db sqlite \<Rightarrow> bytes \<Rightarrow> u64 \<Rightarrow> life list" where
  "store_life E database_path max_bytes =
     (if database_path = [] \<or> max_bytes = 0 then []
      else
        (case open_v2 E (c_str database_path) of (rc, database) \<Rightarrow>
           (case database of
              None \<Rightarrow> []
            | Some db \<Rightarrow>
                Acquire Database #
                (case open_store E database_path max_bytes of Inl _ \<Rightarrow> [Release Database] | Inr _ \<Rightarrow> []))))"

fun resource_of :: "release \<Rightarrow> resource" where
  "resource_of FreeAnnounceEvent = AnnounceEvent"
| "resource_of FreeReceiveEvent = ReceiveEvent"
| "resource_of (CloseSocket s) = Socket s"

text \<open>What a \<open>DiscoveryService\<close> holds, in the order of its constructor.\<close>

definition discovery_holds :: "resources \<Rightarrow> resource list" where
  "discovery_holds s =
     (if res_socket s \<ge> 0 then [Socket (res_socket s)] else []) @
     (if res_receive s then [ReceiveEvent] else []) @ (if res_announce s then [AnnounceEvent] else [])"

definition close_discovery :: "resources \<Rightarrow> life list" where
  "close_discovery s = map (\<lambda>x. Release (resource_of x)) (fst (close_resources s))"

definition discovery_life :: "('db, 'j) Env \<Rightarrow> Config \<Rightarrow> discovery_setup \<Rightarrow> life list" where
  "discovery_life W C d =
     (case acquire W C d of (err, s) \<Rightarrow>
        map Acquire (discovery_holds s) @ (case err of None \<Rightarrow> [] | Some e \<Rightarrow> close_discovery s))"

definition sync_life :: "app_setup \<Rightarrow> life list" where
  "sync_life d =
     (if \<not> as_sync_timer d then []
      else Acquire TimerEvent # (if as_sync_add d \<noteq> 0 then [Release TimerEvent] else []))"

definition http_life :: "app_setup \<Rightarrow> life list" where
  "http_life d =
     (if \<not> as_http_new d then []
      else Acquire HttpServer # (if as_http_bind d \<noteq> 0 then [Release HttpServer] else []))"

section \<open>Construction and destruction of the application\<close>

text \<open>
  The constructor of \<open>Application\<close> with the releases that unwinding makes when a later member
  throws; the service and the stream hold no resource.
\<close>

definition start_life :: "('db, 'j) Env \<Rightarrow> Options \<Rightarrow> app_setup \<Rightarrow> Clock \<Rightarrow> life list" where
  "start_life W s d clock =
     (if \<not> as_event_base d then []
      else Acquire EventBase #
        store_life (sql W) (opt_database_path s) max_database_bytes @
        (case open_store (sql W) (opt_database_path s) max_database_bytes of
           Inl _ \<Rightarrow> [Release EventBase]
         | Inr store \<Rightarrow>
             let C = config_of s (interface_ipv4_address (as_interfaces d) (opt_discovery_interface s)) in
             discovery_life W C (as_discovery d) @
             (case open_discovery W C (as_discovery d) (initial_node store clock) of
                ((Inl _, _), _) \<Rightarrow> [Release Database, Release EventBase]
              | ((Inr res, _), n1) \<Rightarrow>
                  sync_life d @
                  (case open_sync d of
                     Inl _ \<Rightarrow> close_discovery res @ [Release Database, Release EventBase]
                   | Inr _ \<Rightarrow>
                       (case open_service W C n1 of
                          Inl _ \<Rightarrow> Release TimerEvent # close_discovery res @ [Release Database, Release EventBase]
                        | Inr _ \<Rightarrow>
                            http_life d @
                            (case open_http C d of
                               Inl _ \<Rightarrow> Release TimerEvent # close_discovery res @ [Release Database, Release EventBase]
                             | Inr _ \<Rightarrow> []))))))"

text \<open>
  The destructor: the explicit order of \<open>~Application\<close>.  Between the timer and the server the
  event stream frees its requests (\<open>destroy_stream\<close> of \<open>Les_Events\<close>).
\<close>

definition destroy_application :: "resources \<Rightarrow> life list" where
  "destroy_application res =
     close_discovery res @ [Release TimerEvent, Release HttpServer, Release Database, Release EventBase]"

section \<open>The process\<close>

fun what :: "exn \<Rightarrow> bytes" where
  "what (RuntimeError m) = m"
| "what (LengthError m) = m"
| "what (InvalidArgument m) = m"
| "what (OutOfRange m) = m"
| "what DatabaseFull = ''SQLite database reached 10 MiB''"

definition run_banner :: "Config \<Rightarrow> bytes" where
  "run_banner C =
     ''LES Mesh Chat '' @ app_version @ [CHR 0x0A] @ ''Node ID: '' @ node_id (cfg_identity C) @ [CHR 0x0A] @
     ''Callsign: '' @ node_callsign (cfg_identity C) @ [CHR 0x0A] @
     ''Listening on http://'' @ cfg_bind_address C @ '':'' @ to_string (unat (cfg_port C)) @ [CHR 0x0A]"

text \<open>\<open>result\<close>: what \<open>event_base_dispatch\<close> returns when the loop ends.\<close>

definition run_application :: "int \<Rightarrow> unit result" where
  "run_application result = (if result < 0 then Inl (RuntimeError ''libevent dispatch failed'') else Inr ())"

definition fatal :: "exn \<Rightarrow> bytes" where
  "fatal e = ''les-chatd: '' @ what e @ [CHR 0x0A]"

text \<open>What \<open>main\<close> prints on standard output, the line it ends with on standard error, and the exit code.\<close>

record outcome_of_main =
  om_stdout :: bytes
  om_stderr :: bytes
  om_code :: int

definition main_program ::
  "nat \<Rightarrow> ('db, 'j) Env \<Rightarrow> app_setup \<Rightarrow> Clock \<Rightarrow> int \<Rightarrow> bytes \<Rightarrow> bytes list \<Rightarrow> outcome_of_main" where
  "main_program bits W d clock result program args =
     (case main_startup bits args of
        Help \<Rightarrow> \<lparr>om_stdout = print_help program, om_stderr = [], om_code = 0\<rparr>
      | Failed e \<Rightarrow> \<lparr>om_stdout = [], om_stderr = fatal e, om_code = 1\<rparr>
      | Start s \<Rightarrow>
          (case start_application W s d clock of
             Inl e \<Rightarrow> \<lparr>om_stdout = [], om_stderr = fatal e, om_code = 1\<rparr>
           | Inr (C, n) \<Rightarrow>
               (case run_application result of
                  Inl e \<Rightarrow> \<lparr>om_stdout = run_banner C, om_stderr = fatal e, om_code = 1\<rparr>
                | Inr _ \<Rightarrow> \<lparr>om_stdout = run_banner C, om_stderr = [], om_code = 0\<rparr>)))"

section \<open>Balanced traces\<close>

text \<open>What a trace leaves held; nothing is acquired twice or released without being held.\<close>

fun holding :: "resource list \<Rightarrow> life list \<Rightarrow> resource list option" where
  "holding hs [] = Some hs"
| "holding hs (Acquire r # t) = (if r \<in> set hs then None else holding (hs @ [r]) t)"
| "holding hs (Release r # t) = (if r \<in> set hs then holding (remove1 r hs) t else None)"

lemma holding_append: "holding hs (s @ t) = (case holding hs s of None \<Rightarrow> None | Some hs' \<Rightarrow> holding hs' t)"
  by (induction hs s rule: holding.induct) auto

lemma holding_acquire: "distinct (hs @ rs) \<Longrightarrow> holding hs (map Acquire rs @ t) = holding (hs @ rs) t"
  by (induction rs arbitrary: hs) auto

lemma close_discovery_holding:
  "EventBase \<in> set hs \<Longrightarrow> distinct (hs @ discovery_holds s @ ks) \<Longrightarrow>
   holding (hs @ discovery_holds s @ ks) (close_discovery s @ t) = holding (hs @ ks) t"
  by (auto simp: close_discovery_def close_resources_def discovery_holds_def remove1_append)

lemma store_life_Inr: "open_store E path k = Inr s \<Longrightarrow> store_life E path k = [Acquire Database]"
  by (auto simp: open_store_def store_life_def split: if_splits prod.splits option.splits)

lemma store_life_Inl:
  "open_store E path k = Inl e \<Longrightarrow> Database \<notin> set hs \<Longrightarrow> holding hs (store_life E path k @ t) = holding hs t"
  by (auto simp: store_life_def remove1_append remove1_idem split: prod.splits option.splits)

lemma discovery_life_Inl:
  assumes "open_discovery W C d n = ((Inl e, rel), n')" and "set hs = {EventBase, Database}" and "distinct hs"
  shows "holding hs (discovery_life W C d @ t) = holding hs t"
proof -
  obtain s where a: "acquire W C d = (Some e, s)"
    using assms(1) by (auto simp: open_discovery_def split: prod.splits option.splits)
  have d: "distinct (hs @ discovery_holds s)" using assms(2,3) by (auto simp: discovery_holds_def)
  show ?thesis
    using close_discovery_holding [of hs s "[]" t] d assms(2) holding_acquire [OF d, of "close_discovery s @ t"]
    by (simp add: discovery_life_def a)
qed

lemma discovery_life_Inr:
  assumes "open_discovery W C d n = ((Inr s, rel), n')"
  shows "acquire W C d = (None, s)" and "discovery_life W C d = map Acquire (discovery_holds s)"
  using assms by (auto simp: open_discovery_def discovery_life_def split: prod.splits option.splits)

lemma holds_distinct: "distinct (discovery_holds s)" "set (discovery_holds s) \<inter> {EventBase, Database, TimerEvent, HttpServer} = {}"
  by (auto simp: discovery_holds_def)

text \<open>Releasing everything, with or without the HTTP server, from the state after the timer.\<close>

lemma unwind_holding:
  "holding ([EventBase, Database] @ discovery_holds s @ [TimerEvent])
     (Release TimerEvent # close_discovery s @ [Release Database, Release EventBase]) = Some []"
  using close_discovery_holding [of "[EventBase, Database]" s "[]" "[Release Database, Release EventBase]"]
    holds_distinct [of s] by (simp add: remove1_append)

lemma destroy_holding:
  "holding ([EventBase, Database] @ discovery_holds s @ [TimerEvent, HttpServer]) (destroy_application s) = Some []"
  unfolding destroy_application_def
  using close_discovery_holding [of "[EventBase, Database]" s "[TimerEvent, HttpServer]"
      "[Release TimerEvent, Release HttpServer, Release Database, Release EventBase]"] holds_distinct [of s]
  by simp

text \<open>The last three members: what is held once they have been tried.\<close>

lemma sync_life_cases:
  assumes "TimerEvent \<notin> set hs"
  shows "open_sync d = Inl e \<Longrightarrow> holding hs (sync_life d @ t) = holding hs t"
    and "open_sync d = Inr u \<Longrightarrow> holding hs (sync_life d @ t) = holding (hs @ [TimerEvent]) t"
  using assms by (auto simp: open_sync_def sync_life_def remove1_append remove1_idem split: if_splits)

lemma http_life_cases:
  assumes "HttpServer \<notin> set hs"
  shows "open_http C d = Inl e \<Longrightarrow> holding hs (http_life d @ t) = holding hs t"
    and "open_http C d = Inr u \<Longrightarrow> holding hs (http_life d @ t) = holding (hs @ [HttpServer]) t"
  using assms by (auto simp: open_http_def http_life_def remove1_append remove1_idem split: if_splits)

lemma unwind_early:
  "holding ([EventBase, Database] @ discovery_holds s) (close_discovery s @ [Release Database, Release EventBase]) = Some []"
  using close_discovery_holding [of "[EventBase, Database]" s "[]" "[Release Database, Release EventBase]"]
    holds_distinct [of s] by simp

lemma acquire_holding:
  "holding [EventBase, Database] (map Acquire (discovery_holds res) @ t) = holding ([EventBase, Database] @ discovery_holds res) t"
  using holds_distinct [of res] by (intro holding_acquire) auto

lemma not_yet_held:
  "TimerEvent \<notin> set ([EventBase, Database] @ discovery_holds res)"
  "HttpServer \<notin> set ([EventBase, Database] @ discovery_holds res @ [TimerEvent])"
  using holds_distinct [of res] by auto

lemma start_succeeds:
  assumes "start_application W s d clock = Inr (C, n)"
  obtains res where "acquire W C (as_discovery d) = (None, res)"
    and "\<And>t. holding [] (start_life W s d clock @ t) =
      holding ([EventBase, Database] @ discovery_holds res @ [TimerEvent, HttpServer]) t"
proof -
  obtain st res rel n1 u v where life: "as_event_base d"
      "open_store (sql W) (opt_database_path s) max_database_bytes = Inr st"
      "C = config_of s (interface_ipv4_address (as_interfaces d) (opt_discovery_interface s))"
      "open_discovery W C (as_discovery d) (initial_node st clock) = ((Inr res, rel), n1)"
      "open_sync d = Inr u" "open_service W C n1 = Inr n" "open_http C d = Inr v"
    using assms by (auto simp: start_application_def Let_def result_bind_def split: if_splits sum.splits prod.splits)
  note dl = discovery_life_Inr [OF life(4)]
  have "holding [] (start_life W s d clock @ t) =
      holding ([EventBase, Database] @ discovery_holds res @ [TimerEvent, HttpServer]) t" for t
    using sync_life_cases(2) [OF not_yet_held(1) life(5)] http_life_cases(2) [OF not_yet_held(2) life(7)]
      life store_life_Inr [OF life(2)] dl acquire_holding by (simp add: start_life_def Let_def)
  with dl(1) that show thesis by blast
qed

text \<open>A failure after the discovery service was constructed.\<close>

lemma start_fails_late:
  assumes "start_application W s d clock = Inl e" and "as_event_base d"
    and "open_store (sql W) (opt_database_path s) max_database_bytes = Inr st"
    and C: "C = config_of s (interface_ipv4_address (as_interfaces d) (opt_discovery_interface s))"
    and o: "open_discovery W C (as_discovery d) (initial_node st clock) = ((Inr res, rel), n1)"
  shows "holding [] (start_life W s d clock) = Some [] \<and> last (start_life W s d clock) = Release EventBase"
proof -
  note life = assms(2-) store_life_Inr [OF assms(3)] discovery_life_Inr [OF o] acquire_holding
  show ?thesis
  proof (cases "open_sync d")
    case (Inl e)
    then show ?thesis
      using sync_life_cases(1) [OF not_yet_held(1) Inl] unwind_early [of res] life by (simp add: start_life_def Let_def)
  next
    case sync: (Inr u)
    note timer = sync_life_cases(2) [OF not_yet_held(1) sync]
    show ?thesis
    proof (cases "open_service W C n1")
      case (Inl e)
      then show ?thesis
        using timer unwind_holding [of res] life sync by (simp add: start_life_def Let_def)
    next
      case service: (Inr n2)
      then obtain e' where http: "open_http C d = Inl e'"
        using assms sync by (cases "open_http C d") (auto simp: start_application_def Let_def)
      show ?thesis
        using timer http_life_cases(1) [OF not_yet_held(2) http] unwind_holding [of res] life sync service http
        by (simp add: start_life_def Let_def)
    qed
  qed
qed

lemma start_fails:
  assumes "start_application W s d clock = Inl e"
  shows "holding [] (start_life W s d clock) = Some [] \<and>
    (start_life W s d clock = [] \<or> last (start_life W s d clock) = Release EventBase)"
proof (cases "as_event_base d")
  case False
  then show ?thesis by (simp add: start_life_def)
next
  case base: True
  show ?thesis
  proof (cases "open_store (sql W) (opt_database_path s) max_database_bytes")
    case (Inl e)
    then show ?thesis using base store_life_Inl [OF Inl, of "[EventBase]"] by (simp add: start_life_def)
  next
    case store: (Inr st)
    let ?C = "config_of s (interface_ipv4_address (as_interfaces d) (opt_discovery_interface s))"
    obtain r rel n1 where o: "open_discovery W ?C (as_discovery d) (initial_node st clock) = ((r, rel), n1)"
      by (metis prod.collapse)
    show ?thesis
    proof (cases r)
      case (Inl e)
      then show ?thesis
        using base store o discovery_life_Inl [OF o [unfolded Inl], of "[EventBase, Database]"] store_life_Inr [OF store]
        by (simp add: start_life_def Let_def)
    next
      case (Inr res)
      then show ?thesis using start_fails_late [OF assms base store refl] o by simp
    qed
  qed
qed

section \<open>Properties\<close>

text \<open>
  C33: construction and destruction are balanced: whichever step of the start fails, everything
  acquired until then is released again, nothing twice, and the event base last; after a
  successful start the seven resources are held, and the destructor releases exactly them.
\<close>

theorem lifecycle_balanced:
  "case start_application W s d clock of
     Inl e \<Rightarrow> holding [] (start_life W s d clock) = Some [] \<and>
       (start_life W s d clock = [] \<or> last (start_life W s d clock) = Release EventBase)
   | Inr (C, n) \<Rightarrow> \<exists>res. acquire W C (as_discovery d) = (None, res) \<and>
       holding [] (start_life W s d clock) =
         Some ([EventBase, Database] @ discovery_holds res @ [TimerEvent, HttpServer]) \<and>
       holding [] (start_life W s d clock @ destroy_application res) = Some []"
proof (cases "start_application W s d clock")
  case (Inl e)
  then show ?thesis using start_fails [OF Inl] by simp
next
  case (Inr p)
  obtain C n where p: "p = (C, n)" by fastforce
  obtain res where "acquire W C (as_discovery d) = (None, res)"
    and h: "\<And>t. holding [] (start_life W s d clock @ t) =
      holding ([EventBase, Database] @ discovery_holds res @ [TimerEvent, HttpServer]) t"
    using start_succeeds Inr p by metis
  then show ?thesis
    using h [of "[]"] h [of "destroy_application res"] destroy_holding [of res] Inr p by auto
qed

text \<open>Options given as pairs of a name and a value, and their effect one after the other.\<close>

definition arg_pairs :: "(bytes \<times> bytes) list \<Rightarrow> bytes list" where
  "arg_pairs avs = concat (map (\<lambda>(a, v). [a, v]) avs)"

fun apply_options :: "nat \<Rightarrow> (bytes \<times> bytes) list \<Rightarrow> Options \<Rightarrow> Options result" where
  "apply_options bits [] s = Inr s"
| "apply_options bits ((a, v) # avs) s = result_bind (set_option bits a v s) (apply_options bits avs)"

lemma arg_pairs_simps: "arg_pairs [] = []" "arg_pairs ((a, v) # avs) = a # v # arg_pairs avs"
  by (simp_all add: arg_pairs_def)

lemma help_is_no_option: "''--help'' \<notin> set option_names"
  by (simp add: option_names_def)

lemma parse_arguments_pairs:
  assumes "list_all (\<lambda>(a, v). a \<in> set option_names) avs"
  shows "parse_arguments bits (arg_pairs avs @ rest) s = result_bind (apply_options bits avs s) (parse_arguments bits rest)"
  using assms
proof (induction avs arbitrary: s)
  case Nil
  then show ?case by (simp add: arg_pairs_def)
next
  case (Cons av avs)
  obtain a v where av: "av = (a, v)" by fastforce
  then have a: "a \<in> set option_names" "a \<noteq> ''--help''" using Cons.prems help_is_no_option by auto
  have "parse_arguments bits (arg_pairs (av # avs) @ rest) s =
      (case set_option bits a v s of Inl e \<Rightarrow> Inl e | Inr s' \<Rightarrow> parse_arguments bits (arg_pairs avs @ rest) s')"
    using a by (simp add: av arg_pairs_simps read_argument_value_def)
  then show ?case using Cons.IH Cons.prems av by (cases "set_option bits a v s") simp_all
qed

text \<open>
  C34: the command line is read from left to right, and its first argument that is not an option with
  a usable value decides how the process ends: after any pairs of an option and a value that it
  accepts, \<open>--help\<close> prints the help and exits with 0, whatever follows; an unknown argument, or an
  option without a value at the end, is named on standard error and the exit code is 1; nothing is
  started in these cases.
\<close>

theorem first_argument_decides:
  assumes "list_all (\<lambda>(a, v). a \<in> set option_names) avs" and "apply_options bits avs default_options = Inr s"
  shows "main_program bits W d clock result program (arg_pairs avs @ ''--help'' # rest) =
      \<lparr>om_stdout = print_help program, om_stderr = [], om_code = 0\<rparr> \<and>
    (a \<noteq> ''--help'' \<and> a \<notin> set option_names \<longrightarrow>
      main_program bits W d clock result program (arg_pairs avs @ a # rest) =
        \<lparr>om_stdout = [], om_stderr = ''les-chatd: Unknown argument: '' @ a @ [CHR 0x0A], om_code = 1\<rparr>) \<and>
    (a \<in> set option_names \<longrightarrow>
      main_program bits W d clock result program (arg_pairs avs @ [a]) =
        \<lparr>om_stdout = [], om_stderr = ''les-chatd: '' @ a @ '' requires a value'' @ [CHR 0x0A], om_code = 1\<rparr>)"
proof -
  note p = parse_arguments_pairs [OF assms(1), of bits _ default_options, unfolded assms(2)]
  have h: "main_startup bits (arg_pairs avs @ ''--help'' # rest) = Help"
    using p [of "''--help'' # rest"] by (simp add: main_startup_def)
  have u: "main_startup bits (arg_pairs avs @ a # rest) = Failed (RuntimeError (''Unknown argument: '' @ a))"
    if "a \<noteq> ''--help''" "a \<notin> set option_names"
    using that p [of "a # rest"] by (simp add: main_startup_def)
  have v: "main_startup bits (arg_pairs avs @ [a]) = Failed (RuntimeError (a @ '' requires a value''))"
    if "a \<in> set option_names"
    using that help_is_no_option p [of "[a]"] by (auto simp: main_startup_def read_argument_value_def)
  show ?thesis
    using h u v by (simp add: main_program_def fatal_def)
qed

theorem first_argument_decides_witness:
  "\<forall>d clock result. om_stderr (main_program 64 sample_env d clock result ''les-chatd'' [''--node-id'', ''node-a'', ''--verbose'']) =
     ''les-chatd: Unknown argument: --verbose'' @ [CHR 0x0A]"
proof (intro allI)
  fix d clock result
  have "list_all (\<lambda>(a, v). a \<in> set option_names) [(''--node-id'', ''node-a'')]" by (simp add: option_names_def)
  moreover have "apply_options 64 [(''--node-id'', ''node-a'')] default_options = Inr (default_options\<lparr>opt_node_id := ''node-a''\<rparr>)"
    by (simp add: set_option_def)
  ultimately show "om_stderr (main_program 64 sample_env d clock result ''les-chatd'' [''--node-id'', ''node-a'', ''--verbose'']) =
      ''les-chatd: Unknown argument: --verbose'' @ [CHR 0x0A]"
    using first_argument_decides [of "[(''--node-id'', ''node-a'')]" 64 _ sample_env d clock result "''les-chatd''" "[]" "''--verbose''"]
    by (simp add: arg_pairs_simps option_names_def)
qed

end
